theory Spec2Isabelle
  imports Complex_Main "HOL-Library.Word" "HOL-Library.Log_Nat"
begin

section \<open>JavaScript values\<close>

text \<open>
  A JavaScript string is a sequence of 16-bit code units. String literals of the source
  are ASCII and are written through \<open>ascii\<close>.
\<close>

type_synonym jschar = "16 word"
type_synonym jsstring = "jschar list"

definition ascii :: "string \<Rightarrow> jsstring" where
  "ascii s = map (\<lambda>c. of_nat (of_char c)) s"

subsection \<open>Numbers\<close>

text \<open>
  A JavaScript number is an IEEE 754 double. A finite double is the real it denotes; the
  reals that are doubles are those that rounding to the nearest double leaves alone and
  that lie below \<open>2^1024\<close> in magnitude. Rounding is to 53 significant bits, to the nearest value
  and to the even one of two nearest, with the exponent bounded below (the subnormal
  numbers are the multiples of \<open>2^-1074\<close> under \<open>2^-1022\<close>).
\<close>

text \<open>The binary exponent of a positive real: \<open>2^e <= a < 2^(e+1)\<close>.\<close>

definition ilog2 :: "real \<Rightarrow> int" where
  "ilog2 a = (if 1 \<le> a then bitlen \<lfloor>a\<rfloor> - 1 else - bitlen (\<lceil>1 / a\<rceil> - 1))"

definition round_half_even :: "real \<Rightarrow> int" where
  "round_half_even q =
     (let f = \<lfloor>q\<rfloor>
      in if q - of_int f < 1 / 2 then f
         else if 1 / 2 < q - of_int f then f + 1
         else if even f then f else f + 1)"

definition ulp_exponent :: "real \<Rightarrow> int" where
  "ulp_exponent a = max (ilog2 a) (- 1022) - 52"

definition nearest_double :: "real \<Rightarrow> real" where
  "nearest_double x =
     (if x = 0 then 0
      else sgn x * of_int (round_half_even (\<bar>x\<bar> / 2 powi ulp_exponent \<bar>x\<bar>))
             * 2 powi ulp_exponent \<bar>x\<bar>)"

text \<open>The bound that a finite double stays under.\<close>

definition overflow_bound :: real where
  "overflow_bound = 2 ^ 1024"

definition is_double :: "real \<Rightarrow> bool" where
  "is_double x = (nearest_double x = x \<and> \<bar>x\<bar> < overflow_bound)"

typedef double = "{x. is_double x}"
  by (intro exI [of _ 0]) (simp add: is_double_def nearest_double_def overflow_bound_def)

text \<open>
  A number is a finite double (with \<open>Fin\<close> of zero the positive zero), the negative
  zero, an infinity, or NaN.
\<close>

datatype number = Fin double | NegZero | PInf | NInf | NaN

text \<open>The values a field typed \<open>any\<close> can hold in the JSON the pages receive.\<close>

datatype jsval = JUndefined | JNull | JBool bool | JNum number | JStr jsstring

text \<open>The real a finite number denotes, and the sign of a number.\<close>

definition fin_val :: "number \<Rightarrow> real option" where
  "fin_val a = (case a of Fin d \<Rightarrow> Some (Rep_double d) | NegZero \<Rightarrow> Some 0 | _ \<Rightarrow> None)"

definition sign_bit :: "number \<Rightarrow> bool" where
  "sign_bit a = (case a of Fin d \<Rightarrow> Rep_double d < 0 | NegZero \<Rightarrow> True | NInf \<Rightarrow> True
                 | _ \<Rightarrow> False)"

text \<open>
  The result of an operation whose exact value has the magnitude \<open>a\<close> and the given
  sign: the nearest double, an infinity when that is out of range, a zero of that sign
  when it is zero. \<open>num x\<close> is the number that the literal \<open>x\<close> denotes.
\<close>

definition signed_inf :: "bool \<Rightarrow> number" where
  "signed_inf negative = (if negative then NInf else PInf)"

definition signed_zero :: "bool \<Rightarrow> number" where
  "signed_zero negative = (if negative then NegZero else Fin (Abs_double 0))"

definition signed_round :: "bool \<Rightarrow> real \<Rightarrow> number" where
  "signed_round negative a =
     (let r = nearest_double a
      in if overflow_bound \<le> r then signed_inf negative
         else if r = 0 then signed_zero negative
         else Fin (Abs_double (if negative then - r else r)))"

definition num :: "real \<Rightarrow> number" where
  "num x = signed_round (x < 0) \<bar>x\<bar>"

text \<open>\<open>a > b\<close>, \<open>a == b\<close>, \<open>a >= b\<close> and \<open>a <= b\<close>: every comparison with NaN is
  false, and the two zeros are equal.\<close>

definition js_gt :: "number \<Rightarrow> number \<Rightarrow> bool" where
  "js_gt a b =
     (a \<noteq> NaN \<and> b \<noteq> NaN \<and>
      (case (fin_val a, fin_val b) of
         (Some x, Some y) \<Rightarrow> y < x
       | (Some x, None) \<Rightarrow> b = NInf
       | (None, Some y) \<Rightarrow> a = PInf
       | (None, None) \<Rightarrow> a = PInf \<and> b = NInf))"

definition js_eq :: "number \<Rightarrow> number \<Rightarrow> bool" where
  "js_eq a b =
     (a \<noteq> NaN \<and> b \<noteq> NaN \<and>
      (case (fin_val a, fin_val b) of
         (Some x, Some y) \<Rightarrow> x = y
       | (None, None) \<Rightarrow> a = b
       | _ \<Rightarrow> False))"

definition js_ge :: "number \<Rightarrow> number \<Rightarrow> bool" where
  "js_ge a b = (js_gt a b \<or> js_eq a b)"

definition js_le :: "number \<Rightarrow> number \<Rightarrow> bool" where
  "js_le a b = js_ge b a"

text \<open>\<open>!x\<close> on a number: the zeros and NaN are falsy.\<close>

definition falsy_num :: "number \<Rightarrow> bool" where
  "falsy_num x = (x = NaN \<or> fin_val x = Some 0)"

text \<open>
  \<open>a + b\<close>, \<open>-a\<close>, \<open>a - b\<close>, \<open>a * b\<close> and \<open>a / b\<close>, each rounded once. A sum
  that is exactly zero is the positive zero unless both operands are the negative zero;
  the sign of a product or quotient is the exclusive or of the signs.
\<close>

definition js_add :: "number \<Rightarrow> number \<Rightarrow> number" where
  "js_add a b =
     (case (fin_val a, fin_val b) of
        (Some x, Some y) \<Rightarrow> if a = NegZero \<and> b = NegZero then NegZero else num (x + y)
      | (Some x, None) \<Rightarrow> b
      | (None, Some y) \<Rightarrow> a
      | (None, None) \<Rightarrow> if a = b then a else NaN)"

definition js_neg :: "number \<Rightarrow> number" where
  "js_neg a =
     (case a of
        Fin d \<Rightarrow> if Rep_double d = 0 then NegZero else Fin (Abs_double (- Rep_double d))
      | NegZero \<Rightarrow> Fin (Abs_double 0)
      | PInf \<Rightarrow> NInf
      | NInf \<Rightarrow> PInf
      | NaN \<Rightarrow> NaN)"

definition js_sub :: "number \<Rightarrow> number \<Rightarrow> number" where
  "js_sub a b = js_add a (js_neg b)"

definition js_mul :: "number \<Rightarrow> number \<Rightarrow> number" where
  "js_mul a b =
     (if a = NaN \<or> b = NaN then NaN
      else case (fin_val a, fin_val b) of
        (Some x, Some y) \<Rightarrow> signed_round (sign_bit a \<noteq> sign_bit b) \<bar>x * y\<bar>
      | (Some x, None) \<Rightarrow> if x = 0 then NaN else signed_inf (sign_bit a \<noteq> sign_bit b)
      | (None, Some y) \<Rightarrow> if y = 0 then NaN else signed_inf (sign_bit a \<noteq> sign_bit b)
      | (None, None) \<Rightarrow> signed_inf (sign_bit a \<noteq> sign_bit b))"

definition js_div :: "number \<Rightarrow> number \<Rightarrow> number" where
  "js_div a b =
     (if a = NaN \<or> b = NaN then NaN
      else case (fin_val a, fin_val b) of
        (Some x, Some y) \<Rightarrow>
          if y \<noteq> 0 then signed_round (sign_bit a \<noteq> sign_bit b) \<bar>x / y\<bar>
          else if x = 0 then NaN else signed_inf (sign_bit a \<noteq> sign_bit b)
      | (Some x, None) \<Rightarrow> signed_zero (sign_bit a \<noteq> sign_bit b)
      | (None, Some y) \<Rightarrow> signed_inf (sign_bit a \<noteq> sign_bit b)
      | (None, None) \<Rightarrow> NaN)"

text \<open>\<open>Math.round\<close>: the nearest integer, a half towards plus infinity; a result of
  zero keeps the sign of a negative argument.\<close>

definition js_round :: "number \<Rightarrow> number" where
  "js_round a =
     (case a of
        Fin d \<Rightarrow>
          (let r = \<lfloor>Rep_double d + 1 / 2\<rfloor>
           in if r = 0 \<and> Rep_double d < 0 then NegZero else num (of_int r))
      | _ \<Rightarrow> a)"

subsection \<open>Strings: \<open>split\<close> and \<open>join\<close>\<close>

text \<open>
  \<open>s.split(c)\<close> for a one-character separator: the empty string splits into one empty
  piece, and every occurrence of the separator starts a new piece.
\<close>

fun split :: "jschar \<Rightarrow> jsstring \<Rightarrow> jsstring list" where
  "split c [] = [[]]"
| "split c (x # xs) =
     (if x = c then [] # split c xs
      else (case split c xs of [] \<Rightarrow> [[x]] | w # ws \<Rightarrow> (x # w) # ws))"

text \<open>\<open>pieces.join(sep)\<close>.\<close>

fun join :: "jsstring \<Rightarrow> jsstring list \<Rightarrow> jsstring" where
  "join sep [] = []"
| "join sep [w] = w"
| "join sep (w # v # ws) = w @ sep @ join sep (v # ws)"

subsection \<open>\<open>Array.prototype.sort\<close> with a comparator\<close>

text \<open>
  The sort is stable (ECMAScript 2019): an element moves behind another one only when the
  comparator returns a value greater than zero for the pair. It is modelled as an
  insertion sort; the array is returned, and, in the source, is the receiver itself,
  sorted in place.
\<close>

fun insert_by :: "('a \<Rightarrow> 'a \<Rightarrow> number) \<Rightarrow> 'a \<Rightarrow> 'a list \<Rightarrow> 'a list" where
  "insert_by cmp x [] = [x]"
| "insert_by cmp x (y # ys) =
     (if js_gt (cmp x y) (num 0) then y # insert_by cmp x ys else x # y # ys)"

definition sort_by :: "('a \<Rightarrow> 'a \<Rightarrow> number) \<Rightarrow> 'a list \<Rightarrow> 'a list" where
  "sort_by cmp xs = foldr (insert_by cmp) xs []"

section \<open>Price utilities: attribute keys\<close>

text \<open>
  An object \<open>{ [key: string]: string }\<close> is an association list with distinct keys, in
  insertion order. \<open>obj_set\<close> is the assignment \<open>obj[key] = value\<close> of a string to
  an object made by \<open>{}\<close>: it stores the pair, except under the key \<open>__proto__\<close>,
  which is the accessor inherited from \<open>Object.prototype\<close>, whose setter ignores a
  value that is not an object and stores nothing.
\<close>

type_synonym attributes = "(jsstring \<times> jsstring) list"

fun obj_put :: "jsstring \<Rightarrow> jsstring \<Rightarrow> attributes \<Rightarrow> attributes" where
  "obj_put k v [] = [(k, v)]"
| "obj_put k v ((k', v') # kvs) =
     (if k' = k then (k, v) # kvs else (k', v') # obj_put k v kvs)"

definition obj_set :: "jsstring \<Rightarrow> jsstring \<Rightarrow> attributes \<Rightarrow> attributes" where
  "obj_set k v obj = (if k = ascii ''__proto__'' then obj else obj_put k v obj)"

text \<open>
  \<open>generateAttributeKey\<close>: the entries sorted by key with \<open>localeCompare\<close> (a
  parameter: it depends on the host's locale), each rendered \<open>key:value\<close>, joined
  by \<open>|\<close>.
\<close>

definition generateAttributeKey ::
  "(jsstring \<Rightarrow> jsstring \<Rightarrow> number) \<Rightarrow> attributes \<Rightarrow> jsstring" where
  "generateAttributeKey localeCompare attrs =
     join (ascii ''|'')
       (map (\<lambda>(key, value). key @ ascii '':'' @ value)
         (sort_by (\<lambda>(a, _) (b, _). localeCompare a b) attrs))"

text \<open>
  \<open>parseAttributeKey\<close>: \<open>const [key, value] = pair.split(':')\<close> takes the first
  two pieces (\<open>value\<close> is undefined when there is only one), and the pair is stored
  only when both are truthy, that is, defined and not empty.
\<close>

definition parse_pair :: "attributes \<Rightarrow> jsstring \<Rightarrow> attributes" where
  "parse_pair attrs pair =
     (case split 0x3A pair of
        key # value # _ \<Rightarrow> (if key \<noteq> [] \<and> value \<noteq> [] then obj_set key value attrs else attrs)
      | _ \<Rightarrow> attrs)"

definition parseAttributeKey :: "jsstring \<Rightarrow> attributes" where
  "parseAttributeKey attributeKey = foldl parse_pair [] (split 0x7C attributeKey)"

text \<open>A lexicographic comparator on code units, to run the functions on examples.\<close>

fun compare_units :: "jsstring \<Rightarrow> jsstring \<Rightarrow> number" where
  "compare_units [] [] = num 0"
| "compare_units [] (y # ys) = num (- 1)"
| "compare_units (x # xs) [] = num 1"
| "compare_units (x # xs) (y # ys) =
     (if x < y then num (- 1) else if y < x then num 1 else compare_units xs ys)"

section \<open>Built-in conversions\<close>

text \<open>
  The white space and line terminator code units of ECMAScript: what \<open>trim\<close> strips,
  what \<open>parseFloat\<close> skips and what \<open>\s\<close> matches.
\<close>

definition is_space :: "jschar \<Rightarrow> bool" where
  "is_space c =
     (c \<in> {0x09, 0x0A, 0x0B, 0x0C, 0x0D, 0x20, 0xA0, 0x1680, 0x2028, 0x2029, 0x202F, 0x205F,
            0x3000, 0xFEFF}
      \<or> (0x2000 \<le> c \<and> c \<le> 0x200A))"

definition is_digit :: "jschar \<Rightarrow> bool" where
  "is_digit c = (0x30 \<le> c \<and> c \<le> 0x39)"

text \<open>The value of a run of decimal digits.\<close>

definition digits_value :: "jsstring \<Rightarrow> nat" where
  "digits_value ds = foldl (\<lambda>a c. 10 * a + (unat c - 48)) 0 ds"

text \<open>
  \<open>parseFloat\<close> on a string, after ECMAScript: leading white space is skipped and the
  longest prefix that is a decimal literal is read (a sign, then \<open>Infinity\<close> or digits
  with an optional fraction and an optional exponent); what follows the literal is
  ignored, and the result is NaN when there is no such prefix.
\<close>

definition starts_with :: "jsstring \<Rightarrow> jsstring \<Rightarrow> bool" where
  "starts_with s p = (take (length p) s = p)"

text \<open>The exponent part \<open>e\<close>, \<open>e+\<close> or \<open>e-\<close> followed by digits; zero when absent.\<close>

definition exponent_part :: "jsstring \<Rightarrow> int" where
  "exponent_part s =
     (case s of
        [] \<Rightarrow> 0
      | e # r \<Rightarrow>
          if e = 0x65 \<or> e = 0x45 then
            (case r of
               [] \<Rightarrow> 0
             | sg # r' \<Rightarrow>
                 if sg = 0x2D then - int (digits_value (takeWhile is_digit r'))
                 else if sg = 0x2B then int (digits_value (takeWhile is_digit r'))
                 else int (digits_value (takeWhile is_digit r)))
          else 0)"

definition scale10 :: "real \<Rightarrow> int \<Rightarrow> real" where
  "scale10 m e = (if 0 \<le> e then m * 10 ^ nat e else m / 10 ^ nat (- e))"

datatype literal = NoLiteral | InfinityLiteral | Decimal real

definition unsigned_literal :: "jsstring \<Rightarrow> literal" where
  "unsigned_literal s =
     (if starts_with s (ascii ''Infinity'') then InfinityLiteral
      else
        let ip = takeWhile is_digit s;
            r1 = dropWhile is_digit s;
            fp = (case r1 of [] \<Rightarrow> [] | d # r \<Rightarrow> if d = 0x2E then takeWhile is_digit r else []);
            r2 = (case r1 of [] \<Rightarrow> []
                  | d # r \<Rightarrow> if d = 0x2E \<and> (ip \<noteq> [] \<or> fp \<noteq> []) then dropWhile is_digit r
                            else r1)
        in if ip = [] \<and> fp = [] then NoLiteral
           else Decimal (scale10
                  (real (digits_value ip) + real (digits_value fp) / 10 ^ length fp)
                  (exponent_part r2)))"

text \<open>The number a literal with a sign denotes: its exact value, rounded once.\<close>

definition literal_value :: "bool \<Rightarrow> literal \<Rightarrow> number" where
  "literal_value negative l =
     (case l of
        NoLiteral \<Rightarrow> NaN
      | InfinityLiteral \<Rightarrow> signed_inf negative
      | Decimal v \<Rightarrow> signed_round negative v)"

definition parseFloat :: "jsstring \<Rightarrow> number" where
  "parseFloat s =
     (case dropWhile is_space s of
        [] \<Rightarrow> NaN
      | c # r \<Rightarrow>
          if c = 0x2B then literal_value False (unsigned_literal r)
          else if c = 0x2D then literal_value True (unsigned_literal r)
          else literal_value False (unsigned_literal (c # r)))"

text \<open>
  \<open>String(v)\<close>. The decimal rendering of a number (\<open>Number::toString\<close>) is a
  parameter.
\<close>

definition String :: "(number \<Rightarrow> jsstring) \<Rightarrow> jsval \<Rightarrow> jsstring" where
  "String numberToString v =
     (case v of
        JUndefined \<Rightarrow> ascii ''undefined''
      | JNull \<Rightarrow> ascii ''null''
      | JBool b \<Rightarrow> (if b then ascii ''true'' else ascii ''false'')
      | JNum n \<Rightarrow> numberToString n
      | JStr s \<Rightarrow> s)"

text \<open>Truthiness of a value: what \<open>v || d\<close> and \<open>if (v)\<close> test.\<close>

definition truthy :: "jsval \<Rightarrow> bool" where
  "truthy v =
     (case v of
        JUndefined \<Rightarrow> False
      | JNull \<Rightarrow> False
      | JBool b \<Rightarrow> b
      | JNum n \<Rightarrow> \<not> falsy_num n
      | JStr s \<Rightarrow> s \<noteq> [])"

section \<open>Price utilities: validation, margin, bulk price\<close>

text \<open>\<open>typeof price === 'number' && price >= 0 && !isNaN(price)\<close>.\<close>

definition isValidPrice :: "jsval \<Rightarrow> bool" where
  "isValidPrice price =
     (case price of JNum n \<Rightarrow> js_ge n (num 0) \<and> n \<noteq> NaN | _ \<Rightarrow> False)"

definition sanitizePrice :: "(number \<Rightarrow> jsstring) \<Rightarrow> jsval \<Rightarrow> number" where
  "sanitizePrice numberToString price =
     (let parsed = parseFloat (String numberToString price)
      in if isValidPrice (JNum parsed) then parsed else num 0)"

definition calculateProfitMargin :: "number \<Rightarrow> number \<Rightarrow> number" where
  "calculateProfitMargin price costPrice =
     (if falsy_num costPrice \<or> js_le costPrice (num 0) then num 0
      else js_round (js_mul (js_div (js_sub price costPrice) price) (num 100)))"

record bulk_rule =
  minQty :: number
  discount :: number

text \<open>The loop over the sorted rules: the first rule the quantity reaches ends it.\<close>

fun applicable_discount :: "number \<Rightarrow> bulk_rule list \<Rightarrow> number" where
  "applicable_discount quantity [] = num 0"
| "applicable_discount quantity (rule # rules) =
     (if js_ge quantity (minQty rule) then discount rule
      else applicable_discount quantity rules)"

text \<open>
  \<open>calculateBulkPrice\<close> returns the price; \<open>bulkRules.sort(...)\<close> sorts the caller's
  array in place, so the model also returns the array as the call leaves it.
\<close>

definition calculateBulkPrice ::
  "number \<Rightarrow> number \<Rightarrow> bulk_rule list \<Rightarrow> number \<times> bulk_rule list" where
  "calculateBulkPrice basePrice quantity bulkRules =
     (let sorted = sort_by (\<lambda>a b. js_sub (minQty b) (minQty a)) bulkRules;
          applicableDiscount = applicable_discount quantity sorted
      in (js_mul basePrice (js_sub (num 1) (js_div applicableDiscount (num 100))), sorted))"

section \<open>Price utilities: slugs\<close>

text \<open>\<open>s.replace(/P+/g, r)\<close> for a character class \<open>P\<close>: every maximal run becomes \<open>r\<close>.\<close>

function replace_runs :: "(jschar \<Rightarrow> bool) \<Rightarrow> jsstring \<Rightarrow> jsstring \<Rightarrow> jsstring" where
  "replace_runs P r [] = []"
| "replace_runs P r (c # cs) =
     (if P c then r @ replace_runs P r (dropWhile P cs) else c # replace_runs P r cs)"
  by pat_completeness auto
termination
  by (relation "measure (\<lambda>(P, r, s). length s)")
     (auto simp: le_imp_less_Suc length_dropWhile_le)

text \<open>\<open>s.replace(/^P+|P+$/g, '')\<close>: the run at the start and the run at the end go.\<close>

definition strip_ends :: "(jschar \<Rightarrow> bool) \<Rightarrow> jsstring \<Rightarrow> jsstring" where
  "strip_ends P s = rev (dropWhile P (rev (dropWhile P s)))"

definition trim :: "jsstring \<Rightarrow> jsstring" where
  "trim s = strip_ends is_space s"

definition is_hyphen :: "jschar \<Rightarrow> bool" where
  "is_hyphen c = (c = 0x2D)"

text \<open>The class \<open>[a-z0-9]\<close>.\<close>

definition is_lower_alnum :: "jschar \<Rightarrow> bool" where
  "is_lower_alnum c = ((0x61 \<le> c \<and> c \<le> 0x7A) \<or> (0x30 \<le> c \<and> c \<le> 0x39))"

text \<open>The combining marks U+0300 to U+036F.\<close>

definition is_combining :: "jschar \<Rightarrow> bool" where
  "is_combining c = (0x0300 \<le> c \<and> c \<le> 0x036F)"

text \<open>
  \<open>generateSlug\<close>. \<open>toLowerCase\<close> and \<open>normalize('NFD')\<close> follow the Unicode tables
  of the host and are parameters. The argument is typed \<open>string\<close>; the empty string is
  falsy and yields the empty slug.
\<close>

definition generateSlug ::
  "(jsstring \<Rightarrow> jsstring) \<Rightarrow> (jsstring \<Rightarrow> jsstring) \<Rightarrow> jsstring \<Rightarrow> jsstring" where
  "generateSlug toLowerCase normalizeNFD title =
     (if title = [] then []
      else
        let s1 = toLowerCase title;
            s2 = trim s1;
            s3 = normalizeNFD s2;
            s4 = filter (\<lambda>c. \<not> is_combining c) s3;
            s5 = filter (\<lambda>c. is_lower_alnum c \<or> is_space c \<or> is_hyphen c) s4;
            s6 = replace_runs is_space (ascii ''-'') s5;
            s7 = replace_runs is_hyphen (ascii ''-'') s6
        in strip_ends is_hyphen s7)"

text \<open>
  The regular expression \<open>^[a-z0-9]+(-[a-z0-9]+)*$\<close>: a non-empty run of \<open>[a-z0-9]\<close>,
  then the end of the string, or a hyphen and the same again. The run is taken greedily;
  a shorter run would be followed by a character of the class, which is neither a hyphen
  nor the end, so no other way of matching exists.
\<close>

function slugRegex :: "jsstring \<Rightarrow> bool" where
  "slugRegex s =
     (takeWhile is_lower_alnum s \<noteq> [] \<and>
      (case dropWhile is_lower_alnum s of
         [] \<Rightarrow> True
       | c # r \<Rightarrow> c = 0x2D \<and> slugRegex r))"
  by pat_completeness auto
termination
proof (relation "measure length")
  show "wf (measure length)" by simp
next
  fix s :: jsstring and c r
  assume "dropWhile is_lower_alnum s = c # r"
  then have "length (c # r) \<le> length s"
    by (metis length_dropWhile_le)
  then show "(r, s) \<in> measure length" by simp
qed

declare slugRegex.simps [simp del]

definition isValidSlug :: "jsstring \<Rightarrow> bool" where
  "isValidSlug slug = (if slug = [] then False else slugRegex slug)"

section \<open>Orders page\<close>

text \<open>The fields of \<open>Order\<close> and \<open>OrderItem\<close> that the modelled functions read.
  An optional field is an \<open>option\<close>; \<open>totalAmount\<close>, declared a number, arrives as a
  number, a string or nothing, and is a \<open>jsval\<close>.\<close>

record order_item =
  productName :: jsstring
  sku :: "jsstring option"

record order =
  order_id :: jsstring
  orderNumber :: jsstring
  email :: jsstring
  status :: jsstring
  paymentStatus :: jsstring
  totalAmount :: jsval
  shippingFirstName :: "jsstring option"
  shippingLastName :: "jsstring option"
  createdAt :: jsstring
  items :: "order_item list option"

text \<open>\<open>s.includes(t)\<close>: \<open>t\<close> occurs in \<open>s\<close> at some position.\<close>

fun includes_str :: "jsstring \<Rightarrow> jsstring \<Rightarrow> bool" where
  "includes_str [] t = (t = [])"
| "includes_str (c # cs) t = (starts_with (c # cs) t \<or> includes_str cs t)"

text \<open>\<open>field?.toLowerCase().includes(term)\<close>: undefined, hence falsy, on a missing field.\<close>

definition opt_includes ::
  "(jsstring \<Rightarrow> jsstring) \<Rightarrow> jsstring option \<Rightarrow> jsstring \<Rightarrow> bool" where
  "opt_includes toLowerCase field term =
     (case field of None \<Rightarrow> False | Some s \<Rightarrow> includes_str (toLowerCase s) term)"

text \<open>The predicate of the search filter.\<close>

definition search_matches :: "(jsstring \<Rightarrow> jsstring) \<Rightarrow> jsstring \<Rightarrow> order \<Rightarrow> bool" where
  "search_matches toLowerCase searchTerm order =
     (includes_str (toLowerCase (orderNumber order)) (toLowerCase searchTerm) \<or>
      includes_str (toLowerCase (email order)) (toLowerCase searchTerm) \<or>
      opt_includes toLowerCase (shippingFirstName order) (toLowerCase searchTerm) \<or>
      opt_includes toLowerCase (shippingLastName order) (toLowerCase searchTerm) \<or>
      (case items order of
         None \<Rightarrow> False
       | Some its \<Rightarrow>
           list_ex (\<lambda>item.
             includes_str (toLowerCase (productName item)) (toLowerCase searchTerm) \<or>
             opt_includes toLowerCase (sku item) (toLowerCase searchTerm)) its))"

record date_range =
  startDate :: jsstring
  endDate :: jsstring

text \<open>
  \<open>filterOrders\<close> reads the page state and stores the result with \<open>setFilteredOrders\<close>;
  the model takes the state as arguments and returns the stored list.
  \<open>toLowerCase\<close> and the time value of \<open>new Date(s)\<close> (NaN for an invalid date) are
  parameters.
\<close>

definition filterOrders ::
  "(jsstring \<Rightarrow> jsstring) \<Rightarrow> (jsstring \<Rightarrow> number) \<Rightarrow>
   order list \<Rightarrow> jsstring \<Rightarrow> jsstring \<Rightarrow> jsstring \<Rightarrow> date_range \<Rightarrow> order list" where
  "filterOrders toLowerCase dateValue orders searchTerm statusFilter paymentFilter dateRange =
     (let filtered0 = orders;
          filtered1 = (if searchTerm \<noteq> []
                       then filter (search_matches toLowerCase searchTerm) filtered0
                       else filtered0);
          filtered2 = (if statusFilter \<noteq> ascii ''all''
                       then filter (\<lambda>order. status order = statusFilter) filtered1
                       else filtered1);
          filtered3 = (if paymentFilter \<noteq> ascii ''all''
                       then filter (\<lambda>order. paymentStatus order = paymentFilter) filtered2
                       else filtered2);
          filtered4 = (if startDate dateRange \<noteq> []
                       then filter (\<lambda>order. js_ge (dateValue (createdAt order))
                                                  (dateValue (startDate dateRange))) filtered3
                       else filtered3);
          filtered5 = (if endDate dateRange \<noteq> []
                       then filter (\<lambda>order. js_le (dateValue (createdAt order))
                                                  (dateValue (endDate dateRange))) filtered4
                       else filtered4)
      in filtered5)"

record order_stats =
  totalOrders :: nat
  totalRevenue :: number
  pendingOrders :: nat
  completedOrders :: nat

text \<open>\<open>parseFloat(String(order.totalAmount || '0')) || 0\<close>.\<close>

definition order_amount :: "(number \<Rightarrow> jsstring) \<Rightarrow> order \<Rightarrow> number" where
  "order_amount numberToString order =
     (let v = (if truthy (totalAmount order) then totalAmount order else JStr (ascii ''0''));
          parsed = parseFloat (String numberToString v)
      in if falsy_num parsed then num 0 else parsed)"

definition getOrderStats :: "(number \<Rightarrow> jsstring) \<Rightarrow> order list \<Rightarrow> order_stats" where
  "getOrderStats numberToString filteredOrders =
     \<lparr> totalOrders = length filteredOrders,
       totalRevenue =
         foldl (\<lambda>sum order. js_add sum (order_amount numberToString order)) (num 0)
           filteredOrders,
       pendingOrders = length (filter (\<lambda>order. status order = ascii ''pending'') filteredOrders),
       completedOrders =
         length (filter (\<lambda>order. status order = ascii ''completed'') filteredOrders) \<rparr>"

subsection \<open>Addon titles\<close>

record addon =
  addonId :: jsstring
  addonTitle :: "jsstring option"
  title :: "jsstring option"
  name :: "jsstring option"

text \<open>An entry of the catalog loaded from \<open>/api/addons\<close>: its \<open>id\<close> and \<open>title\<close>.\<close>

record catalog_addon =
  catalog_id :: jsstring
  catalog_title :: jsstring

text \<open>\<open>if (addon.f) return addon.f\<close>: a field counts when it is defined and not empty.\<close>

definition truthy_field :: "jsstring option \<Rightarrow> jsstring option" where
  "truthy_field f = (case f of None \<Rightarrow> None | Some s \<Rightarrow> if s \<noteq> [] then Some s else None)"

text \<open>The decimal digits of an array index, as a template literal renders it.\<close>

fun decimal :: "nat \<Rightarrow> jsstring" where
  "decimal n = (if n < 10 then [of_nat (48 + n)]
                else decimal (n div 10) @ [of_nat (48 + n mod 10)])"

declare decimal.simps [simp del]

definition getAddonTitle :: "catalog_addon list \<Rightarrow> addon \<Rightarrow> nat \<Rightarrow> jsstring" where
  "getAddonTitle addons addon index =
     (case truthy_field (addonTitle addon) of Some t \<Rightarrow> t | None \<Rightarrow>
      case truthy_field (title addon) of Some t \<Rightarrow> t | None \<Rightarrow>
      case truthy_field (name addon) of Some t \<Rightarrow> t | None \<Rightarrow>
      case (if addonId addon \<noteq> [] \<and> 0 < length addons
            then find (\<lambda>a. catalog_id a = addonId addon) addons else None) of
        Some addonFromTable \<Rightarrow> catalog_title addonFromTable
      | None \<Rightarrow> ascii ''Addon '' @ decimal (index + 1))"

subsection \<open>Deleting\<close>

text \<open>
  What \<open>await fetch(...)\<close> yields: the promise rejects (a network failure), or it
  resolves to a response whose \<open>ok\<close> flag tells whether the status is 2xx.
\<close>

datatype fetch_result = Rejected | Response bool

text \<open>
  \<open>handleDelete\<close> of the orders page, given the answer to \<open>confirm\<close> and the outcome
  of the request: the order list it leaves, and whether it raised the alert.
\<close>

definition handleDelete_orders ::
  "bool \<Rightarrow> fetch_result \<Rightarrow> order list \<Rightarrow> jsstring \<Rightarrow> order list \<times> bool" where
  "handleDelete_orders confirmed response orders ident =
     (if confirmed then
        (case response of
           Response ok \<Rightarrow>
             if ok then (filter (\<lambda>order. order_id order \<noteq> ident) orders, False)
             else (orders, True)
         | Rejected \<Rightarrow> (orders, True))
      else (orders, False))"

text \<open>A row of the products page; the identifier is \<open>product.product.id\<close>.\<close>

record product_row =
  product_id :: jsstring

text \<open>\<open>handleDelete\<close> of the products page: the response is awaited and not looked at.\<close>

definition handleDelete_products ::
  "bool \<Rightarrow> fetch_result \<Rightarrow> product_row list \<Rightarrow> jsstring \<Rightarrow> product_row list" where
  "handleDelete_products confirmed response products ident =
     (if confirmed then
        (case response of
           Response ok \<Rightarrow> filter (\<lambda>product. product_id product \<noteq> ident) products
         | Rejected \<Rightarrow> products)
      else products)"

section \<open>Notions of the specification\<close>

text \<open>
  The definitions of this section are not code of the repository: they say, in the words
  of the specification, what the theorems below compare the code with, name what the
  proofs speak of, and give inputs for running the code.
\<close>

text \<open>The smallest positive double, \<open>Number.MIN_VALUE\<close>.\<close>

definition min_value :: real where
  "min_value = 2 powi (- 1074)"

text \<open>Rounding a positive real, without its sign.\<close>

definition round_positive :: "real \<Rightarrow> real" where
  "round_positive a =
     of_int (round_half_even (a / 2 powi ulp_exponent a)) * 2 powi ulp_exponent a"

text \<open>A finite non-negative number (either zero is one).\<close>

definition finite_nonneg_number :: "jsval \<Rightarrow> bool" where
  "finite_nonneg_number v =
     (case v of
        JNum n \<Rightarrow> (case fin_val n of Some x \<Rightarrow> 0 \<le> x | None \<Rightarrow> False)
      | _ \<Rightarrow> False)"

text \<open>A list of rules in descending order of \<open>minQty\<close>.\<close>

abbreviation descending :: "bulk_rule list \<Rightarrow> bool" where
  "descending rules \<equiv> sorted_wrt (\<lambda>a b. js_ge (minQty a) (minQty b)) rules"

text \<open>An optional string field that is missing or empty.\<close>

definition unset :: "jsstring option \<Rightarrow> bool" where
  "unset f = (f = None \<or> f = Some [])"

text \<open>
  A total amount coerced to a number: a number is itself, a string is the number that
  \<open>parseFloat\<close> reads from it, and what is missing or gives no number is 0 (as is
  either zero).
\<close>

definition coerced_total :: "jsval \<Rightarrow> number" where
  "coerced_total v =
     (case v of
        JNum n \<Rightarrow> if falsy_num n then num 0 else n
      | JStr s \<Rightarrow> if falsy_num (parseFloat s) then num 0 else parseFloat s
      | _ \<Rightarrow> num 0)"

text \<open>The sum of a list of numbers, added from left to right, starting from 0.\<close>

definition sum_in_order :: "number list \<Rightarrow> number" where
  "sum_in_order xs = foldl js_add (num 0) xs"

text \<open>A slug without two hyphens in a row.\<close>

definition no_double_hyphen :: "jsstring \<Rightarrow> bool" where
  "no_double_hyphen s = successively (\<lambda>a b. \<not> (is_hyphen a \<and> is_hyphen b)) s"

text \<open>
  Inputs for running the code: \<open>toLowerCase\<close> on ASCII, an order with a given
  identifier, status and total, and the empty date range.
\<close>

definition ascii_lower :: "jsstring \<Rightarrow> jsstring" where
  "ascii_lower s = map (\<lambda>c. if 0x41 \<le> c \<and> c \<le> 0x5A then c + 0x20 else c) s"

definition example_order :: "jsstring \<Rightarrow> jsstring \<Rightarrow> jsval \<Rightarrow> order" where
  "example_order ident st amount =
     \<lparr> order_id = ident, orderNumber = ascii ''ORD-'' @ ident, email = ascii ''a@b.c'',
       status = st, paymentStatus = ascii ''paid'', totalAmount = amount,
       shippingFirstName = None, shippingLastName = None,
       createdAt = ascii ''2024-01-01'', items = None \<rparr>"

definition no_dates :: date_range where
  "no_dates = \<lparr> startDate = [], endDate = [] \<rparr>"

section \<open>Properties of rounding\<close>

lemma nearest_double_eq:
  "nearest_double x = (if x = 0 then 0 else sgn x * round_positive \<bar>x\<bar>)"
  by (simp add: nearest_double_def round_positive_def)

lemma pow2_add: "(2::real) powi (m + n) = 2 powi m * 2 powi n"
  by (simp add: power_int_add)

lemma pow2_diff: "(2::real) powi (m - n) = 2 powi m / 2 powi n"
  by (simp add: power_int_diff)

lemma pow2_of_nat: "(2::real) powi int d = 2 ^ d"
  by simp

lemma pow2_less_imp: "(2::real) powi m < 2 powi n \<Longrightarrow> m < n"
  using power_int_increasing [of n m "2::real"] by (cases "m < n") auto

lemma pow2_le_imp: "(2::real) powi m \<le> 2 powi n \<Longrightarrow> m \<le> n"
  using power_int_strict_increasing [of n m "2::real"] by (cases "m \<le> n") auto

text \<open>The exponent brackets its argument between two powers of two.\<close>

lemma pow2_le_of_int: "2 ^ k \<le> n \<Longrightarrow> (2::real) ^ k \<le> real_of_int n"
proof -
  assume "2 ^ k \<le> n"
  then have "real_of_int (2 ^ k) \<le> real_of_int n" by (simp only: of_int_le_iff)
  then show ?thesis by simp
qed

lemma of_int_le_pow2: "n \<le> 2 ^ k \<Longrightarrow> real_of_int n \<le> (2::real) ^ k"
proof -
  assume "n \<le> 2 ^ k"
  then have "real_of_int n \<le> real_of_int (2 ^ k)" by (simp only: of_int_le_iff)
  then show ?thesis by simp
qed

lemma ilog2_bounds:
  assumes "0 < a"
  shows "2 powi ilog2 a \<le> a" and "a < 2 powi (ilog2 a + 1)"
proof -
  have "2 powi ilog2 a \<le> a \<and> a < 2 powi (ilog2 a + 1)"
  proof (cases "1 \<le> a")
    case True
    define n where "n = \<lfloor>a\<rfloor>"
    have n: "0 < n" using True by (simp add: n_def)
    then have k: "1 \<le> bitlen n" by (auto simp: bitlen_alt_def)
    from bitlen_bounds [OF n]
    have lo: "2 ^ nat (bitlen n - 1) \<le> n" and hi: "n < 2 ^ nat (bitlen n)" by auto
    have "2 powi (bitlen n - 1) = (2::real) ^ nat (bitlen n - 1)"
      using k by (simp add: power_int_nonneg_exp)
    also have "\<dots> \<le> real_of_int n"
      using lo by (rule pow2_le_of_int)
    also have "\<dots> \<le> a" by (simp add: n_def)
    finally have 1: "2 powi (bitlen n - 1) \<le> a" .
    have "n + 1 \<le> 2 ^ nat (bitlen n)" using hi by simp
    then have "real_of_int (n + 1) \<le> (2::real) ^ nat (bitlen n)"
      by (rule of_int_le_pow2)
    moreover have "a < real_of_int (n + 1)" by (simp add: n_def)
    ultimately have "a < (2::real) ^ nat (bitlen n)" by linarith
    also have "\<dots> = 2 powi (bitlen n)"
      using k by (simp add: power_int_nonneg_exp)
    finally have 2: "a < 2 powi (bitlen n - 1 + 1)" by simp
    from 1 2 True show ?thesis by (simp add: ilog2_def n_def)
  next
    case False
    define y where "y = 1 / a"
    have y: "1 < y" using False assms by (simp add: y_def)
    define n where "n = \<lceil>y\<rceil> - 1"
    have n: "0 < n" using y by (simp add: n_def)
    have n_lt: "real_of_int n < y" by (simp add: n_def) linarith
    have y_le: "y \<le> real_of_int (n + 1)" by (simp add: n_def)
    define k where "k = bitlen n"
    from n have k: "1 \<le> k" by (auto simp: k_def bitlen_alt_def)
    from bitlen_bounds [OF n]
    have lo: "2 ^ nat (k - 1) \<le> n" and hi: "n < 2 ^ nat k" by (auto simp: k_def)
    have "n + 1 \<le> 2 ^ nat k" using hi by simp
    then have "real_of_int (n + 1) \<le> (2::real) ^ nat k"
      by (rule of_int_le_pow2)
    with y_le have "y \<le> 2 ^ nat k" by linarith
    then have "1 / 2 ^ nat k \<le> a"
      using assms by (simp add: y_def field_simps)
    moreover have "2 powi (- k) = 1 / (2::real) ^ nat k"
      using k by (simp add: power_int_minus_divide power_int_nonneg_exp)
    ultimately have 1: "2 powi (- k) \<le> a" by simp
    have "(2::real) ^ nat (k - 1) \<le> real_of_int n"
      using lo by (rule pow2_le_of_int)
    with n_lt have "2 ^ nat (k - 1) < y" by linarith
    then have "a < 1 / 2 ^ nat (k - 1)"
      using assms by (simp add: y_def field_simps)
    moreover have "2 powi (- k + 1) = 1 / (2::real) ^ nat (k - 1)"
      using k power_int_minus_divide [of "2::real" "k - 1"]
      by (simp add: power_int_nonneg_exp)
    ultimately have 2: "a < 2 powi (- k + 1)" by simp
    from 1 2 False show ?thesis by (simp add: ilog2_def y_def n_def k_def)
  qed
  then show "2 powi ilog2 a \<le> a" and "a < 2 powi (ilog2 a + 1)" by auto
qed

lemma ilog2_less: "0 < a \<Longrightarrow> a < 2 powi k \<Longrightarrow> ilog2 a < k"
  using ilog2_bounds(1) [of a] by (intro pow2_less_imp) linarith

lemma ilog2_ge: "0 < a \<Longrightarrow> 2 powi k \<le> a \<Longrightarrow> k \<le> ilog2 a"
  using ilog2_bounds(2) [of a] pow2_less_imp [of k "ilog2 a + 1"] by force

lemma round_half_even_of_int: "round_half_even (of_int n) = n"
  by (simp add: round_half_even_def)

lemma round_half_even_le: "round_half_even q \<le> \<lfloor>q\<rfloor> + 1"
  by (simp add: round_half_even_def Let_def)

lemma round_half_even_ge: "\<lfloor>q\<rfloor> \<le> round_half_even q"
  by (simp add: round_half_even_def Let_def)

lemma round_half_even_upper: "q < of_int N \<Longrightarrow> round_half_even q \<le> N"
proof -
  assume "q < of_int N"
  then have "\<lfloor>q\<rfloor> < N" by (simp add: floor_less_iff)
  with round_half_even_le [of q] show ?thesis by linarith
qed

lemma round_half_even_pos: "1 \<le> q \<Longrightarrow> 1 \<le> round_half_even q"
proof -
  assume "1 \<le> q"
  then have "1 \<le> \<lfloor>q\<rfloor>" by (simp add: le_floor_iff)
  with round_half_even_ge [of q] show ?thesis by linarith
qed

lemma round_half_even_nonneg: "0 \<le> q \<Longrightarrow> 0 \<le> round_half_even q"
proof -
  assume "0 \<le> q"
  then have "0 \<le> \<lfloor>q\<rfloor>" by (simp add: le_floor_iff)
  with round_half_even_ge [of q] show ?thesis by linarith
qed

text \<open>Rounding a rounded value changes nothing, so every rounded value in range is a
  double.\<close>

lemma round_positive_idem:
  assumes "0 < a"
  shows "round_positive a = 0 \<or>
         (0 < round_positive a \<and> round_positive (round_positive a) = round_positive a)"
proof -
  define M where "M = max (ilog2 a) (- 1022)"
  define e where "e = M - 52"
  define m where "m = round_half_even (a / 2 powi e)"
  define r where "r = real_of_int m * 2 powi e"
  have r: "round_positive a = r"
    by (simp add: round_positive_def ulp_exponent_def r_def m_def e_def M_def)
  have M: "- 1022 \<le> M" "ilog2 a \<le> M" by (simp_all add: M_def)
  have "a < 2 powi (ilog2 a + 1)" using assms by (rule ilog2_bounds)
  also have "\<dots> \<le> 2 powi (M + 1)" using M by (intro power_int_increasing) simp_all
  finally have a_lt: "a < 2 powi (M + 1)" .
  have "a / 2 powi e < 2 powi (M + 1) / 2 powi e"
    using a_lt by (simp add: divide_strict_right_mono)
  also have "\<dots> = 2 powi (M + 1 - e)" by (rule pow2_diff [symmetric])
  also have "\<dots> = real_of_int (2 ^ 53)" by (simp add: e_def)
  finally have "m \<le> 2 ^ 53" unfolding m_def by (rule round_half_even_upper)
  moreover have "0 \<le> m" unfolding m_def using assms by (intro round_half_even_nonneg) simp
  ultimately consider "m = 0" | "m = 2 ^ 53" | "0 < m" "m < 2 ^ 53" by linarith
  then show ?thesis
  proof cases
    case 1
    then show ?thesis by (simp add: r r_def)
  next
    case 2
    have m53: "real_of_int m = 2 powi 53" using 2 by simp
    have "r = 2 powi 53 * 2 powi e" by (simp only: r_def m53)
    also have "\<dots> = 2 powi (53 + e)" by (rule pow2_add [symmetric])
    also have "53 + e = M + 1" by (simp add: e_def)
    finally have r_eq: "r = 2 powi (M + 1)" .
    then have r_pos: "0 < r" by simp
    have "r < 2 powi (M + 2)" unfolding r_eq by (intro power_int_strict_increasing) simp_all
    then have "ilog2 r < M + 2" using r_pos by (intro ilog2_less)
    moreover have "M + 1 \<le> ilog2 r" using r_pos by (intro ilog2_ge) (simp_all add: r_eq)
    ultimately have "ilog2 r = M + 1" by simp
    then have ue: "ulp_exponent r = e + 1" using M by (simp add: ulp_exponent_def e_def)
    have "r / 2 powi (e + 1) = 2 powi (M + 1 - (e + 1))"
      unfolding r_eq by (rule pow2_diff [symmetric])
    also have "\<dots> = real_of_int (2 ^ 52)" by (simp add: e_def)
    finally have "round_half_even (r / 2 powi (e + 1)) = 2 ^ 52"
      by (simp only: round_half_even_of_int)
    then have "round_positive r = real_of_int (2 ^ 52) * 2 powi (e + 1)"
      by (simp only: round_positive_def ue)
    also have "real_of_int (2 ^ 52) = (2::real) powi 52" by simp
    also have "(2::real) powi 52 * 2 powi (e + 1) = 2 powi (52 + (e + 1))"
      by (rule pow2_add [symmetric])
    also have "52 + (e + 1) = M + 1" by (simp add: e_def)
    finally show ?thesis using r_pos by (simp add: r r_eq)
  next
    case 3
    have r_pos: "0 < r" using 3 by (simp add: r_def)
    have "real_of_int m < real_of_int (2 ^ 53)"
      using 3(2) by (simp only: of_int_less_iff)
    then have "real_of_int m < 2 powi 53" by simp
    then have "r < 2 powi 53 * 2 powi e"
      unfolding r_def by (intro mult_strict_right_mono) simp_all
    also have "\<dots> = 2 powi (53 + e)" by (rule pow2_add [symmetric])
    also have "53 + e = M + 1" by (simp add: e_def)
    finally have "ilog2 r < M + 1" using r_pos by (intro ilog2_less)
    define u where "u = ulp_exponent r"
    have le: "u \<le> e" using M \<open>ilog2 r < M + 1\<close> by (simp add: u_def ulp_exponent_def e_def)
    define d where "d = nat (e - u)"
    have e_split: "e = u + int d" using le by (simp add: d_def)
    have pe: "2 powi e = 2 powi u * (2::real) ^ d"
      by (subst e_split) (simp only: pow2_add pow2_of_nat)
    have r_split: "r = real_of_int (m * 2 ^ d) * 2 powi u"
      unfolding r_def pe by simp
    then have "r / 2 powi u = real_of_int (m * 2 ^ d)" by simp
    then have "round_half_even (r / 2 powi u) = m * 2 ^ d"
      by (simp only: round_half_even_of_int)
    then have "round_positive r = real_of_int (m * 2 ^ d) * 2 powi u"
      by (simp only: round_positive_def u_def)
    then show ?thesis using r_pos r_split by (simp only: r) simp
  qed
qed

lemma round_positive_nonneg: "0 < a \<Longrightarrow> 0 \<le> round_positive a"
  using round_positive_idem [of a] by auto

lemma nearest_double_idem: "nearest_double (nearest_double x) = nearest_double x"
proof (cases "x = 0")
  case True
  then show ?thesis by (simp add: nearest_double_eq)
next
  case False
  then have pos: "0 < \<bar>x\<bar>" by simp
  from round_positive_idem [OF pos] show ?thesis
  proof
    assume "round_positive \<bar>x\<bar> = 0"
    then show ?thesis by (simp add: nearest_double_eq)
  next
    assume r: "0 < round_positive \<bar>x\<bar> \<and>
      round_positive (round_positive \<bar>x\<bar>) = round_positive \<bar>x\<bar>"
    then have "\<bar>sgn x * round_positive \<bar>x\<bar>\<bar> = round_positive \<bar>x\<bar>"
      using False by (simp add: abs_mult)
    moreover have "sgn (sgn x * round_positive \<bar>x\<bar>) = sgn x"
      using False r by (simp add: sgn_mult)
    ultimately show ?thesis using False r by (simp add: nearest_double_eq)
  qed
qed

lemma nearest_double_minus: "nearest_double (- x) = - nearest_double x"
  by (simp add: nearest_double_eq)

lemma is_double_minus: "is_double (- x) = is_double x"
  by (auto simp: is_double_def nearest_double_minus)

lemma is_double_nearest: "\<bar>nearest_double x\<bar> < overflow_bound \<Longrightarrow> is_double (nearest_double x)"
  by (simp add: is_double_def nearest_double_idem)

lemma overflow_bound_pos: "0 < overflow_bound"
  by (simp add: overflow_bound_def)

lemma is_double_0: "is_double 0"
  by (simp add: is_double_def nearest_double_eq overflow_bound_pos)

text \<open>Every double is a whole multiple of the smallest positive one.\<close>

lemma is_double_grid:
  assumes "is_double x"
  shows "\<exists>k::int. x = real_of_int k * min_value"
proof (cases "x = 0")
  case True
  then show ?thesis by (intro exI [of _ 0]) simp
next
  case False
  define e where "e = ulp_exponent \<bar>x\<bar>"
  define m where "m = round_half_even (\<bar>x\<bar> / 2 powi e)"
  define d where "d = nat (e + 1074)"
  have "- 1074 \<le> e" by (simp add: e_def ulp_exponent_def)
  then have "e = - 1074 + int d" by (simp add: d_def)
  then have "2 powi e = 2 powi (- 1074) * (2::real) powi int d"
    by (simp only: pow2_add)
  then have p: "2 powi e = min_value * real_of_int (2 ^ d)"
    by (simp only: min_value_def pow2_of_nat) simp
  have "x = sgn x * real_of_int m * 2 powi e"
    using assms False by (simp add: is_double_def nearest_double_def m_def e_def)
  also have "sgn x = real_of_int (if 0 < x then 1 else - 1)"
    using False by (simp add: sgn_if)
  finally have "x = real_of_int ((if 0 < x then 1 else - 1) * m * 2 ^ d) * min_value"
    by (simp only: p of_int_mult mult_ac)
  then show ?thesis by blast
qed

lemma min_value_pos: "0 < min_value"
  by (simp only: min_value_def zero_less_power_int zero_less_numeral)

text \<open>A real that is at least the smallest positive double in magnitude keeps its sign
  when rounded; a difference of two distinct doubles is such a real.\<close>

lemma round_positive_pos:
  assumes "min_value \<le> a"
  shows "0 < round_positive a"
proof -
  have a: "0 < a" using assms min_value_pos by linarith
  have "2 powi ulp_exponent a \<le> a"
  proof (cases "- 1022 \<le> ilog2 a")
    case True
    then have "2 powi ulp_exponent a \<le> (2::real) powi ilog2 a"
      by (intro power_int_increasing) (simp_all add: ulp_exponent_def)
    with ilog2_bounds(1) [OF a] show ?thesis by linarith
  next
    case False
    then have "ulp_exponent a = - 1074" by (simp add: ulp_exponent_def max_def)
    then show ?thesis using assms by (simp only: min_value_def)
  qed
  moreover have "0 < (2::real) powi ulp_exponent a" by simp
  ultimately have "1 \<le> a / 2 powi ulp_exponent a" by (simp only: le_divide_eq_1_pos)
  then have "1 \<le> round_half_even (a / 2 powi ulp_exponent a)" by (rule round_half_even_pos)
  then have "0 < real_of_int (round_half_even (a / 2 powi ulp_exponent a))" by simp
  then show ?thesis by (simp add: round_positive_def)
qed

lemma nearest_double_sign:
  assumes "min_value \<le> \<bar>z\<bar>"
  shows "(0 < nearest_double z) = (0 < z)" and "(nearest_double z < 0) = (z < 0)"
proof -
  have z: "z \<noteq> 0" using assms min_value_pos by auto
  have r: "0 < round_positive \<bar>z\<bar>" using assms by (rule round_positive_pos)
  show "(0 < nearest_double z) = (0 < z)"
    using z r by (simp add: nearest_double_eq sgn_if zero_less_mult_iff)
  show "(nearest_double z < 0) = (z < 0)"
    using z r by (simp add: nearest_double_eq sgn_if mult_less_0_iff)
qed

lemma double_diff_sign:
  assumes "is_double x" and "is_double y"
  shows "(0 < nearest_double (y - x)) = (x < y)" and "(nearest_double (y - x) < 0) = (y < x)"
proof -
  from is_double_grid [OF assms(1)] obtain k where k: "x = real_of_int k * min_value" ..
  from is_double_grid [OF assms(2)] obtain l where l: "y = real_of_int l * min_value" ..
  have both: "(0 < nearest_double (y - x)) = (x < y) \<and> (nearest_double (y - x) < 0) = (y < x)"
  proof (cases "k = l")
    case True
    then show ?thesis by (simp add: k l nearest_double_eq)
  next
    case False
    then have "1 \<le> \<bar>l - k\<bar>" by simp
    then have "1 \<le> \<bar>real_of_int (l - k)\<bar>" by (metis of_int_1_le_iff of_int_abs)
    moreover have "y - x = real_of_int (l - k) * min_value"
      by (simp add: k l algebra_simps)
    ultimately have "min_value \<le> \<bar>y - x\<bar>"
      using min_value_pos by (simp add: abs_mult)
    from nearest_double_sign [OF this] show ?thesis by simp
  qed
  then show "(0 < nearest_double (y - x)) = (x < y)"
    and "(nearest_double (y - x) < 0) = (y < x)" by simp_all
qed

section \<open>Properties of numbers\<close>

lemma Rep_Abs: "is_double x \<Longrightarrow> Rep_double (Abs_double x) = x"
  by (simp add: Abs_double_inverse)

lemma Abs_eq: "is_double x \<Longrightarrow> is_double y \<Longrightarrow> (Abs_double x = Abs_double y) = (x = y)"
  by (simp add: Abs_double_inject)

lemma is_double_Rep: "is_double (Rep_double d)"
  using Rep_double [of d] by simp

text \<open>The rules that evaluate the arithmetic on given numbers.\<close>

lemmas dbl_eval = nearest_double_def ulp_exponent_def ilog2_def compute_bitlen
  round_half_even_def Let_def is_double_def overflow_bound_def

lemmas num_eval = num_def signed_round_def signed_zero_def signed_inf_def fin_val_def
  sign_bit_def js_add_def js_neg_def js_sub_def js_mul_def js_div_def js_round_def
  js_gt_def js_eq_def js_ge_def js_le_def falsy_num_def Rep_Abs Abs_eq dbl_eval

lemma nearest_double_nonneg: "0 \<le> a \<Longrightarrow> 0 \<le> nearest_double a"
  using round_positive_nonneg [of a] by (cases "a = 0") (simp_all add: nearest_double_eq)

lemma nearest_double_abs: "nearest_double \<bar>z\<bar> = \<bar>nearest_double z\<bar>"
  using nearest_double_nonneg [of "\<bar>z\<bar>"] nearest_double_minus [of z]
  by (cases "z < 0") (simp_all add: abs_if)

lemma num_0: "num 0 = Fin (Abs_double 0)"
  by (simp add: num_eval)

lemma fin_val_num_0: "fin_val (num 0) = Some 0"
  by (simp add: num_eval)

lemma fin_val_None_iff: "fin_val a = None \<longleftrightarrow> a = PInf \<or> a = NInf \<or> a = NaN"
  by (cases a) (simp_all add: fin_val_def)

lemma fin_val_is_double: "fin_val a = Some x \<Longrightarrow> is_double x"
  by (cases a) (auto simp: fin_val_def is_double_Rep is_double_0)

text \<open>The value of a rounded result.\<close>

lemma fin_val_signed_round:
  assumes "0 \<le> a"
  shows "fin_val (signed_round negative a) =
     (if overflow_bound \<le> nearest_double a then None
      else Some (if negative then - nearest_double a else nearest_double a))"
proof (cases "overflow_bound \<le> nearest_double a")
  case True
  then show ?thesis by (simp add: signed_round_def signed_inf_def fin_val_def)
next
  case False
  have "0 \<le> nearest_double a" using assms by (rule nearest_double_nonneg)
  with False have "\<bar>nearest_double a\<bar> < overflow_bound" by simp
  then have d: "is_double (nearest_double a)" by (rule is_double_nearest)
  then have "is_double (- nearest_double a)" by (simp only: is_double_minus)
  with d False show ?thesis
    by (simp add: signed_round_def signed_zero_def fin_val_def Rep_Abs is_double_0 Let_def)
qed

lemma signed_round_not_NaN: "signed_round negative a \<noteq> NaN"
  by (simp add: signed_round_def signed_zero_def signed_inf_def Let_def)

lemma signed_round_inf:
  "0 \<le> a \<Longrightarrow> overflow_bound \<le> nearest_double a \<Longrightarrow>
   signed_round negative a = (if negative then NInf else PInf)"
  by (simp add: signed_round_def signed_inf_def)

lemma js_gt_zero:
  "js_gt a (num 0) = (case fin_val a of Some x \<Rightarrow> 0 < x | None \<Rightarrow> a = PInf)"
  unfolding js_gt_def fin_val_num_0
  by (cases a) (simp_all add: fin_val_def num_0)

lemma nearest_double_signed:
  "nearest_double z = (if z < 0 then - nearest_double \<bar>z\<bar> else nearest_double \<bar>z\<bar>)"
  using nearest_double_minus [of z] by (simp add: abs_if)

lemma js_gt_num_0: "js_gt (num z) (num 0) = (0 < nearest_double z)"
proof (cases "z < 0")
  case True
  define r where "r = nearest_double (- z)"
  have r: "0 \<le> r" unfolding r_def using True by (intro nearest_double_nonneg) simp
  have nz: "nearest_double z = - r" using nearest_double_minus [of "- z"] by (simp add: r_def)
  have n: "num z = signed_round True (- z)" using True by (simp add: num_def)
  show ?thesis
  proof (cases "overflow_bound \<le> r")
    case True
    then have "num z = NInf" unfolding n r_def using \<open>z < 0\<close> by (subst signed_round_inf) simp_all
    then show ?thesis using r by (simp add: js_gt_zero fin_val_def nz)
  next
    case False
    then have "fin_val (num z) = Some (- r)"
      unfolding n r_def using \<open>z < 0\<close> by (subst fin_val_signed_round) simp_all
    then show ?thesis using r by (simp add: js_gt_zero nz)
  qed
next
  case False
  define r where "r = nearest_double z"
  have r: "0 \<le> r" unfolding r_def using False by (intro nearest_double_nonneg) simp
  have n: "num z = signed_round False z" using False by (simp add: num_def)
  show ?thesis
  proof (cases "overflow_bound \<le> r")
    case True
    then have "num z = PInf" unfolding n r_def using \<open>\<not> z < 0\<close> by (subst signed_round_inf) simp_all
    moreover have "0 < r" using True overflow_bound_pos by linarith
    ultimately show ?thesis by (simp add: js_gt_zero fin_val_def r_def)
  next
    case False
    then have "fin_val (num z) = Some r"
      unfolding n r_def using \<open>\<not> z < 0\<close> by (subst fin_val_signed_round) simp_all
    then show ?thesis by (simp add: js_gt_zero r_def)
  qed
qed

lemma fin_val_Fin: "fin_val (Fin d) = Some (Rep_double d)"
  by (simp add: fin_val_def)

lemma fin_val_NegZero: "fin_val NegZero = Some 0"
  by (simp add: fin_val_def)

lemma fin_val_PInf: "fin_val PInf = None"
  by (simp add: fin_val_def)

lemma fin_val_NInf: "fin_val NInf = None"
  by (simp add: fin_val_def)

lemma fin_val_NaN: "fin_val NaN = None"
  by (simp add: fin_val_def)

lemmas fin_val_simps = fin_val_Fin fin_val_NegZero fin_val_PInf fin_val_NInf fin_val_NaN

lemma sign_bit_Fin: "sign_bit (Fin d) = (Rep_double d < 0)"
  by (simp add: sign_bit_def)

lemma sign_bit_NegZero: "sign_bit NegZero"
  by (simp add: sign_bit_def)

lemma sign_bit_PInf: "\<not> sign_bit PInf"
  by (simp add: sign_bit_def)

lemma sign_bit_NInf: "sign_bit NInf"
  by (simp add: sign_bit_def)

lemmas sign_bit_simps = sign_bit_Fin sign_bit_NegZero sign_bit_PInf sign_bit_NInf

lemma num_not_NaN: "num x \<noteq> NaN"
  by (simp add: num_def signed_round_not_NaN)

lemma fin_val_cases:
  obtains x where "fin_val a = Some x" "is_double x" | "a = PInf" | "a = NInf" | "a = NaN"
  using fin_val_None_iff [of a] fin_val_is_double [of a] by (cases "fin_val a") auto

lemma js_neg_not_NaN: "a \<noteq> NaN \<Longrightarrow> js_neg a \<noteq> NaN"
  by (cases a) (simp_all add: js_neg_def)

lemma fin_val_js_neg: "fin_val a = Some x \<Longrightarrow> fin_val (js_neg a) = Some (- x)"
proof (cases a)
  case (Fin d)
  assume "fin_val a = Some x"
  with Fin have x: "x = Rep_double d" by (simp add: fin_val_def)
  have "is_double (- Rep_double d)" by (simp only: is_double_minus is_double_Rep)
  with Fin x show ?thesis by (simp add: js_neg_def fin_val_def Rep_Abs)
qed (auto simp: js_neg_def fin_val_def Rep_Abs is_double_0)

lemma js_neg_NegZero_iff: "js_neg a = NegZero \<longleftrightarrow> a = Fin (Abs_double 0)"
proof (cases a)
  case (Fin d)
  have "Rep_double d = 0 \<longleftrightarrow> d = Abs_double 0"
    by (metis Rep_Abs Rep_double_inverse is_double_0)
  with Fin show ?thesis by (simp add: js_neg_def)
qed (simp_all add: js_neg_def)

text \<open>The sign of a difference of numbers other than NaN tells their order.\<close>

lemma js_gt_sub:
  assumes "a \<noteq> NaN" and "b \<noteq> NaN"
  shows "js_gt (js_sub b a) (num 0) = js_gt b a"
proof (cases a rule: fin_val_cases)
  case (1 x)
  show ?thesis
  proof (cases b rule: fin_val_cases)
    case b: (1 y)
    have na: "fin_val (js_neg a) = Some (- x)" using 1(1) by (rule fin_val_js_neg)
    have gt: "js_gt b a = (x < y)"
      using assms 1(1) b(1) by (simp add: js_gt_def)
    show ?thesis
    proof (cases "b = NegZero \<and> js_neg a = NegZero")
      case True
      then have "y = 0" "x = 0"
        using b(1) 1(1) by (auto simp: fin_val_def js_neg_NegZero_iff Rep_Abs is_double_0)
      moreover from True have "js_sub b a = NegZero"
        by (simp add: js_sub_def js_add_def fin_val_simps)
      ultimately show ?thesis by (simp add: gt js_gt_zero fin_val_simps)
    next
      case False
      then have "js_sub b a = num (y - x)"
        using na b(1) by (auto simp: js_sub_def js_add_def)
      then show ?thesis
        using double_diff_sign(1) [OF 1(2) b(2)] by (simp add: gt js_gt_num_0)
    qed
  next
    case 2
    with 1(1) assms show ?thesis
      by (simp add: js_sub_def js_add_def fin_val_js_neg fin_val_simps fin_val_num_0 num_0 js_gt_def)
  next
    case 3
    with 1(1) assms show ?thesis
      by (simp add: js_sub_def js_add_def fin_val_js_neg fin_val_simps fin_val_num_0 num_0 js_gt_def)
  next
    case 4
    with assms show ?thesis by simp
  qed
next
  case 2
  then show ?thesis
    using assms(2)
    by (cases b rule: fin_val_cases)
       (auto simp: js_sub_def js_add_def js_neg_def fin_val_simps fin_val_num_0 num_0 js_gt_def)
next
  case 3
  then show ?thesis
    using assms(2)
    by (cases b rule: fin_val_cases)
       (auto simp: js_sub_def js_add_def js_neg_def fin_val_simps fin_val_num_0 num_0 js_gt_def)
next
  case 4
  with assms show ?thesis by simp
qed

text \<open>Numbers other than NaN are totally preordered by \<open>>=\<close>.\<close>

lemma js_ge_refl: "a \<noteq> NaN \<Longrightarrow> js_ge a a"
  by (cases a) (auto simp: js_ge_def js_eq_def fin_val_def)

lemma js_ge_total: "a \<noteq> NaN \<Longrightarrow> b \<noteq> NaN \<Longrightarrow> \<not> js_gt b a \<Longrightarrow> js_ge a b"
  by (cases a; cases b) (auto simp: js_ge_def js_gt_def js_eq_def fin_val_def)

lemma js_gt_imp_ge: "js_gt b a \<Longrightarrow> js_ge b a"
  by (simp add: js_ge_def)

lemma js_ge_trans: "js_ge a b \<Longrightarrow> js_ge b c \<Longrightarrow> js_ge a c"
  by (cases a; cases b; cases c) (auto simp: js_ge_def js_gt_def js_eq_def fin_val_def)

text \<open>Multiplying by the factor of no discount changes nothing.\<close>

lemma no_discount_factor: "js_sub (num 1) (js_div (num 0) (num 100)) = num 1"
  by (simp add: num_eval)

lemma fin_val_num_1: "fin_val (num 1) = Some 1"
  by (simp add: num_eval)

lemma sign_bit_num_1: "\<not> sign_bit (num 1)"
  by (simp add: num_eval)

lemma num_1_not_NaN: "num 1 \<noteq> NaN"
  by (simp add: num_eval)

lemma js_mul_num_1: "js_mul b (num 1) = b"
proof (cases b)
  case (Fin d)
  define x where "x = Rep_double d"
  have dx: "is_double \<bar>x\<bar>"
    using is_double_Rep [of d] is_double_minus [of x] by (simp add: x_def abs_if)
  then have nd: "nearest_double \<bar>x\<bar> = \<bar>x\<bar>" "\<not> overflow_bound \<le> \<bar>x\<bar>"
    by (simp_all add: is_double_def)
  have same: "Abs_double x = d" by (simp add: x_def Rep_double_inverse)
  have "js_mul b (num 1) = signed_round (x < 0) \<bar>x\<bar>"
    using Fin by (simp add: js_mul_def fin_val_num_1 sign_bit_num_1 num_1_not_NaN
        fin_val_simps sign_bit_simps x_def)
  also have "\<dots> = Fin (Abs_double x)"
    using nd by (auto simp: signed_round_def signed_zero_def abs_if)
  finally show ?thesis using Fin same by simp
next
  case NegZero
  then show ?thesis
    by (simp add: js_mul_def fin_val_num_1 sign_bit_num_1 num_1_not_NaN fin_val_simps
        sign_bit_simps signed_round_def signed_zero_def nearest_double_eq
        not_le [THEN iffD2, OF overflow_bound_pos])
qed (simp_all add: js_mul_def fin_val_num_1 sign_bit_num_1 num_1_not_NaN fin_val_simps
        sign_bit_simps signed_inf_def)

lemma js_mul_one: "js_mul b (js_sub (num 1) (js_div (num 0) (num 100))) = b"
  by (simp only: no_discount_factor js_mul_num_1)

section \<open>Properties of the attribute keys\<close>

lemma split_not_Nil: "split c s \<noteq> []"
  by (induction s) (auto split: list.splits)

lemma split_no_sep: "c \<notin> set w \<Longrightarrow> split c w = [w]"
  by (induction w) auto

lemma split_append_sep: "c \<notin> set w \<Longrightarrow> split c (w @ c # rest) = w # split c rest"
  by (induction w) (auto split: list.splits simp: split_not_Nil)

lemma split_join:
  "ws \<noteq> [] \<Longrightarrow> \<forall>w\<in>set ws. c \<notin> set w \<Longrightarrow> split c (join [c] ws) = ws"
proof (induction ws rule: induct_list012)
  case 1
  then show ?case by simp
next
  case (2 w)
  then show ?case by (simp add: split_no_sep)
next
  case (3 w v ws)
  then show ?case by (simp add: split_append_sep)
qed

lemma set_insert_by: "set (insert_by cmp x ys) = insert x (set ys)"
  by (induction ys) auto

lemma set_sort_by: "set (sort_by cmp xs) = set xs"
  unfolding sort_by_def by (induction xs) (auto simp: set_insert_by)

lemma distinct_insert_by:
  "distinct (map f (insert_by cmp x ys)) = (f x \<notin> f ` set ys \<and> distinct (map f ys))"
  by (induction ys) (auto simp: set_insert_by)

lemma distinct_sort_by: "distinct (map f xs) \<Longrightarrow> distinct (map f (sort_by cmp xs))"
  unfolding sort_by_def
proof (induction xs)
  case Nil
  then show ?case by simp
next
  case (Cons x xs)
  have "set (foldr (insert_by cmp) xs []) = set xs"
    using set_sort_by[of cmp xs] by (simp add: sort_by_def)
  with Cons show ?case by (simp add: distinct_insert_by)
qed

lemma map_of_obj_put: "map_of (obj_put k v kvs) = (map_of kvs)(k \<mapsto> v)"
  by (induction kvs) auto

lemma map_of_obj_set:
  "k \<noteq> ascii ''__proto__'' \<Longrightarrow> map_of (obj_set k v kvs) = (map_of kvs)(k \<mapsto> v)"
  by (simp add: obj_set_def map_of_obj_put)

text \<open>A pair under the key \<open>__proto__\<close> is not stored.\<close>

lemma parse_proto_key: "parseAttributeKey (ascii ''__proto__:x'') = []"
  by (simp add: parseAttributeKey_def parse_pair_def obj_set_def ascii_def)

lemma parse_pair_render:
  "k \<noteq> [] \<Longrightarrow> v \<noteq> [] \<Longrightarrow> 0x3A \<notin> set k \<Longrightarrow> 0x3A \<notin> set v \<Longrightarrow>
   parse_pair attrs (k @ ascii '':'' @ v) = obj_set k v attrs"
  by (simp add: parse_pair_def ascii_def split_append_sep split_no_sep)

lemma map_of_foldl_parse_pair:
  "distinct (map fst es) \<Longrightarrow>
   \<forall>(k, v)\<in>set es. k \<noteq> [] \<and> v \<noteq> [] \<and> 0x3A \<notin> set k \<and> 0x3A \<notin> set v
      \<and> k \<noteq> ascii ''__proto__'' \<Longrightarrow>
   map_of (foldl parse_pair acc (map (\<lambda>(key, value). key @ ascii '':'' @ value) es))
     = map_of acc ++ map_of es"
proof (induction es arbitrary: acc)
  case Nil
  then show ?case by simp
next
  case (Cons e es)
  obtain k v where e: "e = (k, v)" by (cases e)
  from Cons.prems e have kv: "k \<noteq> []" "v \<noteq> []" "0x3A \<notin> set k" "0x3A \<notin> set v"
    and proto: "k \<noteq> ascii ''__proto__''"
    and k_fresh: "k \<notin> fst ` set es" and d: "distinct (map fst es)"
    and rest: "\<forall>(k, v)\<in>set es. k \<noteq> [] \<and> v \<noteq> [] \<and> 0x3A \<notin> set k \<and> 0x3A \<notin> set v
      \<and> k \<noteq> ascii ''__proto__''"
    by auto
  have none: "map_of es k = None"
    using k_fresh by (simp add: map_of_eq_None_iff)
  have "map_of (foldl parse_pair acc (map (\<lambda>(key, value). key @ ascii '':'' @ value) (e # es)))
      = map_of (obj_set k v acc) ++ map_of es"
    using Cons.IH[OF d rest] by (simp add: e parse_pair_render kv)
  also have "\<dots> = map_of acc ++ map_of (e # es)"
    using none proto by (auto simp: e map_of_obj_set map_add_def fun_eq_iff split: option.splits)
  finally show ?case .
qed


lemma ascii_bar: "ascii ''|'' = [0x7C]"
  by (simp add: ascii_def)

lemma ascii_colon: "ascii '':'' = [0x3A]"
  by (simp add: ascii_def)

text \<open>
  Claim C1, as the code has it. \<open>parseAttributeKey\<close> stores a pair only when its key and
  its value are both non-empty, and never under the key \<open>__proto__\<close>, so the round trip
  needs that as well: for every attribute object whose keys and values are non-empty and
  contain neither \<open>:\<close> nor \<open>|\<close>, and none of whose keys is \<open>__proto__\<close>, parsing the
  generated key gives an object with the same keys and the same values, whatever order
  \<open>localeCompare\<close> puts the keys in.
\<close>

theorem parse_generate_roundtrip:
  assumes keys: "distinct (map fst m)"
    and chars: "\<forall>(k, v)\<in>set m. k \<noteq> [] \<and> v \<noteq> [] \<and> k \<noteq> ascii ''__proto__'' \<and>
                  0x3A \<notin> set k \<and> 0x7C \<notin> set k \<and> 0x3A \<notin> set v \<and> 0x7C \<notin> set v"
  shows "map_of (parseAttributeKey (generateAttributeKey localeCompare m)) = map_of m"
proof -
  define es where "es = sort_by (\<lambda>(a, _) (b, _). localeCompare a b) m"
  define render :: "jsstring \<times> jsstring \<Rightarrow> jsstring"
    where "render = (\<lambda>(key, value). key @ ascii '':'' @ value)"
  have set_es: "set es = set m"
    by (simp add: es_def set_sort_by)
  have dist_es: "distinct (map fst es)"
    using keys by (simp add: es_def distinct_sort_by)
  have same: "map_of es = map_of m"
    using dist_es keys set_es by (simp add: map_of_inject_set)
  have gen: "generateAttributeKey localeCompare m = join [0x7C] (map render es)"
    by (simp add: generateAttributeKey_def es_def render_def ascii_bar)
  show ?thesis
  proof (cases "es = []")
    case True
    then have "m = []" using set_es by simp
    then show ?thesis
      by (simp add: generateAttributeKey_def sort_by_def parseAttributeKey_def parse_pair_def)
  next
    case False
    have no_bar: "\<forall>w\<in>set (map render es). 0x7C \<notin> set w"
      using chars set_es by (auto simp: render_def ascii_colon)
    have "split 0x7C (join [0x7C] (map render es)) = map render es"
      using False no_bar by (intro split_join) simp_all
    then have "parseAttributeKey (generateAttributeKey localeCompare m)
                 = foldl parse_pair [] (map render es)"
      by (simp add: parseAttributeKey_def gen)
    moreover have "map_of (foldl parse_pair [] (map render es)) = map_of [] ++ map_of es"
      unfolding render_def using dist_es chars set_es
      by (intro map_of_foldl_parse_pair) auto
    ultimately show ?thesis using same by simp
  qed
qed

text \<open>The round trip on \<open>{size: "m", color: "red"}\<close>, whose key is \<open>color:red|size:m\<close>.\<close>

theorem parse_generate_roundtrip_witness:
  "map_of (parseAttributeKey (generateAttributeKey compare_units
       [(ascii ''size'', ascii ''m''), (ascii ''color'', ascii ''red'')]))
     = map_of [(ascii ''size'', ascii ''m''), (ascii ''color'', ascii ''red'')]
   \<and> parseAttributeKey (generateAttributeKey compare_units
       [(ascii ''size'', ascii ''m''), (ascii ''color'', ascii ''red'')])
     = [(ascii ''color'', ascii ''red''), (ascii ''size'', ascii ''m'')]"
proof -
  have "map_of (parseAttributeKey (generateAttributeKey compare_units
       [(ascii ''size'', ascii ''m''), (ascii ''color'', ascii ''red'')]))
     = map_of [(ascii ''size'', ascii ''m''), (ascii ''color'', ascii ''red'')]"
    by (rule parse_generate_roundtrip) (simp_all add: ascii_def)
  moreover have "parseAttributeKey (generateAttributeKey compare_units
       [(ascii ''size'', ascii ''m''), (ascii ''color'', ascii ''red'')])
     = [(ascii ''color'', ascii ''red''), (ascii ''size'', ascii ''m'')]"
    by (simp add: parseAttributeKey_def generateAttributeKey_def sort_by_def parse_pair_def
        obj_set_def ascii_def num_eval)
  ultimately show ?thesis by blast
qed

text \<open>
  Claim C1 as stated fails on an empty value: \<open>{color: ""}\<close> has no \<open>:\<close> and no
  \<open>|\<close> in its key or value, its key string is \<open>color:\<close>, and parsing that gives the
  empty object.
\<close>

theorem roundtrip_empty_value_counterexample:
  "distinct (map fst [(ascii ''color'', [])])
   \<and> 0x3A \<notin> set (ascii ''color'') \<and> 0x7C \<notin> set (ascii ''color'')
   \<and> generateAttributeKey compare_units [(ascii ''color'', [])] = ascii ''color:''
   \<and> parseAttributeKey (ascii ''color:'') = []
   \<and> map_of (parseAttributeKey (generateAttributeKey compare_units [(ascii ''color'', [])]))
       \<noteq> map_of [(ascii ''color'', [])]"
proof -
  have g: "generateAttributeKey compare_units [(ascii ''color'', [])] = ascii ''color:''"
    by (simp add: generateAttributeKey_def sort_by_def ascii_def)
  have p: "parseAttributeKey (ascii ''color:'') = []"
    by (simp add: parseAttributeKey_def parse_pair_def ascii_def)
  have "map_of ([] :: attributes) (ascii ''color'') \<noteq> map_of [(ascii ''color'', [])] (ascii ''color'')"
    by simp
  then have "map_of ([] :: attributes) \<noteq> map_of [(ascii ''color'', [])]"
    by metis
  then show ?thesis
    unfolding g p by (simp add: ascii_def)
qed

section \<open>Properties of price validation\<close>

lemmas parseFloat_defs = parseFloat_def ascii_def is_space_def unsigned_literal_def
  starts_with_def is_digit_def digits_value_def scale10_def exponent_part_def
  literal_value_def num_eval

lemma parseFloat_abc: "parseFloat (ascii ''abc'') = NaN"
  by (simp add: parseFloat_defs)

lemma parseFloat_12_5: "parseFloat (ascii ''12.5'') = num 12.5"
  by (simp add: parseFloat_defs)

lemma parseFloat_0: "parseFloat (ascii ''0'') = num 0"
  by (simp add: parseFloat_defs)

lemma parseFloat_7: "parseFloat (ascii ''7'') = num 7"
  by (simp add: parseFloat_defs)

lemma parseFloat_empty: "parseFloat [] = NaN"
  by (simp add: parseFloat_def)

lemma js_ge_zero:
  "js_ge a (num 0) = (case fin_val a of Some x \<Rightarrow> 0 \<le> x | None \<Rightarrow> a = PInf)"
  unfolding js_ge_def js_gt_def js_eq_def fin_val_num_0
  by (cases a) (auto simp: fin_val_simps num_0)

lemma isValidPrice_iff:
  "isValidPrice v \<longleftrightarrow> finite_nonneg_number v \<or> v = JNum PInf"
proof (cases v)
  case (JNum n)
  then show ?thesis
    by (cases n) (auto simp: isValidPrice_def finite_nonneg_number_def js_ge_zero fin_val_simps)
qed (simp_all add: isValidPrice_def finite_nonneg_number_def)

text \<open>
  Claim C2, as the code has it. \<open>isValidPrice\<close> tests the type, \<open>>= 0\<close> and
  \<open>!isNaN\<close>, and nothing tests finiteness: it holds exactly of the finite non-negative
  numbers and of \<open>Infinity\<close>. \<open>sanitizePrice\<close> returns what \<open>parseFloat\<close> reads
  from the string form of its argument when that is a valid price, and 0 otherwise;
  \<open>sanitizePrice("abc")\<close> is 0 and \<open>sanitizePrice("12.5")\<close> is 12.5.
\<close>

theorem price_validation:
  "(isValidPrice v \<longleftrightarrow> finite_nonneg_number v \<or> v = JNum PInf)
   \<and> sanitizePrice numberToString v =
       (if isValidPrice (JNum (parseFloat (String numberToString v)))
        then parseFloat (String numberToString v) else num 0)
   \<and> sanitizePrice numberToString (JStr (ascii ''abc'')) = num 0
   \<and> sanitizePrice numberToString (JStr (ascii ''12.5'')) = num 12.5"
proof -
  have a: "sanitizePrice numberToString (JStr (ascii ''abc'')) = num 0"
    by (simp add: sanitizePrice_def String_def parseFloat_abc isValidPrice_def)
  have b: "sanitizePrice numberToString (JStr (ascii ''12.5'')) = num 12.5"
    by (simp add: sanitizePrice_def String_def parseFloat_12_5 isValidPrice_def js_ge_zero)
       (simp add: num_eval)
  have c: "sanitizePrice numberToString v =
       (if isValidPrice (JNum (parseFloat (String numberToString v)))
        then parseFloat (String numberToString v) else num 0)"
    by (simp add: sanitizePrice_def)
  show ?thesis
    using a b c isValidPrice_iff [of v] by blast
qed

text \<open>The theorem at 12.5, -1, NaN and the string \<open>"12.5"\<close>.\<close>

theorem price_validation_witness:
  "isValidPrice (JNum (num 12.5)) \<and> \<not> isValidPrice (JNum (num (- 1)))
   \<and> \<not> isValidPrice (JNum NaN) \<and> \<not> isValidPrice (JStr (ascii ''12.5''))
   \<and> sanitizePrice (\<lambda>n. []) (JStr (ascii ''12.5'')) = num 12.5"
  using price_validation [of "JNum (num 12.5)" "\<lambda>n. []"]
    price_validation [of "JNum (num (- 1))" "\<lambda>n. []"]
    price_validation [of "JNum NaN" "\<lambda>n. []"]
    price_validation [of "JStr (ascii ''12.5'')" "\<lambda>n. []"]
  by (simp add: finite_nonneg_number_def num_eval)

text \<open>
  Claim C2 as stated fails at \<open>Infinity\<close>, which is not finite and which
  \<open>isValidPrice\<close> accepts.
\<close>

theorem isValidPrice_infinity_counterexample:
  "isValidPrice (JNum PInf) \<and> \<not> finite_nonneg_number (JNum PInf)"
  by (simp add: isValidPrice_def finite_nonneg_number_def js_ge_zero fin_val_simps)

section \<open>Properties of the profit margin\<close>

text \<open>
  Claim C3: \<open>calculateProfitMargin(price, costPrice)\<close> is
  \<open>round(((price - costPrice) / price) * 100)\<close> when \<open>costPrice > 0\<close> and 0
  otherwise (a NaN cost included); it is 40 at (100, 60) and 0 at (100, 0). Every step is
  rounded to a double before the next: at (40, 17) the value rounded is
  57.49999999999999, and the margin is 57.
\<close>

theorem profit_margin:
  "calculateProfitMargin price costPrice =
     (if js_gt costPrice (num 0)
      then js_round (js_mul (js_div (js_sub price costPrice) price) (num 100))
      else num 0)
   \<and> calculateProfitMargin (num 100) (num 60) = num 40
   \<and> calculateProfitMargin (num 100) (num 0) = num 0
   \<and> calculateProfitMargin (num 40) (num 17) = num 57"
proof -
  have guard: "(falsy_num costPrice \<or> js_le costPrice (num 0)) = (\<not> js_gt costPrice (num 0))"
    unfolding falsy_num_def js_le_def js_ge_def js_gt_def js_eq_def fin_val_num_0
    by (cases costPrice) (auto simp: fin_val_simps num_0)
  have general: "calculateProfitMargin price costPrice =
     (if js_gt costPrice (num 0)
      then js_round (js_mul (js_div (js_sub price costPrice) price) (num 100))
      else num 0)"
    unfolding calculateProfitMargin_def guard by simp
  have at_100_60: "calculateProfitMargin (num 100) (num 60) = num 40"
    by (simp add: calculateProfitMargin_def num_eval)
  have at_100_0: "calculateProfitMargin (num 100) (num 0) = num 0"
    by (simp add: calculateProfitMargin_def num_eval)
  have at_40_17: "calculateProfitMargin (num 40) (num 17) = num 57"
    by (simp add: calculateProfitMargin_def num_eval)
  from general at_100_60 at_100_0 at_40_17 show ?thesis
    by (intro conjI)
qed

text \<open>
  The theorem where the rounding of each step shows: at (40, 17) the quotient times 100 is
  57.49999999999999 and rounds to 57, at (40, 51) it is -27.500000000000004 and rounds to
  -28; and at a NaN cost, a negative cost, and the prices 0 and -0.
\<close>

theorem profit_margin_witness:
  "calculateProfitMargin (num 40) (num 17) = num 57
   \<and> calculateProfitMargin (num 40) (num 51) = num (- 28)
   \<and> calculateProfitMargin (num 80) NaN = num 0
   \<and> calculateProfitMargin (num 80) (num (- 5)) = num 0
   \<and> calculateProfitMargin (num 0) (num 5) = NInf
   \<and> calculateProfitMargin NegZero (num 5) = PInf"
  using profit_margin [of "num 40" "num 17"] profit_margin [of "num 40" "num 51"]
    profit_margin [of "num 80" NaN] profit_margin [of "num 80" "num (- 5)"]
    profit_margin [of "num 0" "num 5"] profit_margin [of NegZero "num 5"]
  by (simp add: num_eval)

section \<open>Properties of the bulk price\<close>

lemma descending_insert_by:
  assumes "descending ys" and "minQty x \<noteq> NaN" and "\<forall>y\<in>set ys. minQty y \<noteq> NaN"
  shows "descending (insert_by (\<lambda>a b. js_sub (minQty b) (minQty a)) x ys)"
  using assms
proof (induction ys)
  case Nil
  then show ?case by simp
next
  case (Cons y ys)
  show ?case
  proof (cases "js_gt (minQty y) (minQty x)")
    case True
    then have "js_ge (minQty y) (minQty x)" by (rule js_gt_imp_ge)
    with Cons True show ?thesis
      by (auto simp: js_gt_sub set_insert_by)
  next
    case False
    with Cons.prems have xy: "js_ge (minQty x) (minQty y)"
      by (intro js_ge_total) auto
    have "\<forall>z\<in>set ys. js_ge (minQty x) (minQty z)"
      using Cons.prems(1) xy by (auto intro: js_ge_trans)
    with Cons.prems False xy show ?thesis
      by (simp add: js_gt_sub)
  qed
qed

lemma descending_sort_by:
  "\<forall>r\<in>set rules. minQty r \<noteq> NaN \<Longrightarrow>
   descending (sort_by (\<lambda>a b. js_sub (minQty b) (minQty a)) rules)"
proof (induction rules)
  case Nil
  then show ?case by (simp add: sort_by_def)
next
  case (Cons r rules)
  have "set (foldr (insert_by (\<lambda>a b. js_sub (minQty b) (minQty a))) rules []) = set rules"
    using set_sort_by [of _ rules] by (simp add: sort_by_def)
  with Cons show ?case
    by (simp add: sort_by_def descending_insert_by)
qed

lemma applicable_discount_none:
  "\<forall>r\<in>set rules. \<not> js_ge quantity (minQty r) \<Longrightarrow> applicable_discount quantity rules = num 0"
  by (induction rules) auto

lemma applicable_discount_first:
  assumes "descending rules" and "\<forall>r\<in>set rules. minQty r \<noteq> NaN"
    and "\<exists>r\<in>set rules. js_ge quantity (minQty r)"
  shows "\<exists>r\<in>set rules. js_ge quantity (minQty r)
           \<and> (\<forall>r'\<in>set rules. js_ge quantity (minQty r') \<longrightarrow> js_ge (minQty r) (minQty r'))
           \<and> applicable_discount quantity rules = discount r"
  using assms
proof (induction rules)
  case Nil
  then show ?case by simp
next
  case (Cons r rules)
  show ?case
  proof (cases "js_ge quantity (minQty r)")
    case True
    have "\<forall>r'\<in>set (r # rules). js_ge (minQty r) (minQty r')"
      using Cons.prems(1,2) by (auto simp: js_ge_refl)
    with True show ?thesis by auto
  next
    case False
    with Cons.prems have "\<exists>r\<in>set rules. js_ge quantity (minQty r)" by auto
    with Cons obtain s where "s \<in> set rules" "js_ge quantity (minQty s)"
      "\<forall>r'\<in>set rules. js_ge quantity (minQty r') \<longrightarrow> js_ge (minQty s) (minQty r')"
      "applicable_discount quantity rules = discount s"
      by auto
    with False show ?thesis by auto
  qed
qed

text \<open>
  Claim C6, as the code has it. A rule whose \<open>minQty\<close> is NaN makes the comparator
  return NaN, and the sort then leaves rules out of order; so the thresholds are to be
  numbers other than NaN. Then the rules are scanned in descending order of \<open>minQty\<close>
  and the first one the quantity reaches gives the discount: when some rule is reached,
  the price is \<open>basePrice * (1 - discount / 100)\<close> for a reached rule whose \<open>minQty\<close>
  is the largest among the reached ones; when none is, the price is \<open>basePrice\<close>; and
  \<open>calculateBulkPrice(100, 5, [{minQty:10,discount:20},{minQty:3,discount:10}])\<close>
  is 90.
\<close>

theorem bulk_price_largest_tier:
  assumes "\<forall>r\<in>set rules. minQty r \<noteq> NaN"
  shows "descending (snd (calculateBulkPrice basePrice quantity rules))
    \<and> fst (calculateBulkPrice basePrice quantity rules) =
        js_mul basePrice (js_sub (num 1)
          (js_div (applicable_discount quantity (snd (calculateBulkPrice basePrice quantity rules)))
                  (num 100)))
    \<and> ((\<exists>r\<in>set rules. js_ge quantity (minQty r)) \<longrightarrow>
        (\<exists>r\<in>set rules. js_ge quantity (minQty r)
           \<and> (\<forall>r'\<in>set rules. js_ge quantity (minQty r') \<longrightarrow> js_ge (minQty r) (minQty r'))
           \<and> fst (calculateBulkPrice basePrice quantity rules) =
               js_mul basePrice (js_sub (num 1) (js_div (discount r) (num 100)))))
    \<and> ((\<forall>r\<in>set rules. \<not> js_ge quantity (minQty r)) \<longrightarrow>
        fst (calculateBulkPrice basePrice quantity rules) = basePrice)
    \<and> fst (calculateBulkPrice (num 100) (num 5)
             [\<lparr>minQty = num 10, discount = num 20\<rparr>, \<lparr>minQty = num 3, discount = num 10\<rparr>]) = num 90"
proof -
  define sorted_rules where "sorted_rules = sort_by (\<lambda>a b. js_sub (minQty b) (minQty a)) rules"
  have res: "calculateBulkPrice basePrice quantity rules =
      (js_mul basePrice (js_sub (num 1) (js_div (applicable_discount quantity sorted_rules) (num 100))),
       sorted_rules)"
    by (simp add: calculateBulkPrice_def sorted_rules_def Let_def)
  have set_sorted: "set sorted_rules = set rules"
    by (simp add: sorted_rules_def set_sort_by)
  have desc: "descending sorted_rules"
    unfolding sorted_rules_def using assms by (rule descending_sort_by)
  have some: "(\<exists>r\<in>set rules. js_ge quantity (minQty r)) \<longrightarrow>
        (\<exists>r\<in>set rules. js_ge quantity (minQty r)
           \<and> (\<forall>r'\<in>set rules. js_ge quantity (minQty r') \<longrightarrow> js_ge (minQty r) (minQty r'))
           \<and> fst (calculateBulkPrice basePrice quantity rules) =
               js_mul basePrice (js_sub (num 1) (js_div (discount r) (num 100))))"
  proof
    assume "\<exists>r\<in>set rules. js_ge quantity (minQty r)"
    then obtain r where "r \<in> set rules" "js_ge quantity (minQty r)"
      "\<forall>r'\<in>set rules. js_ge quantity (minQty r') \<longrightarrow> js_ge (minQty r) (minQty r')"
      "applicable_discount quantity sorted_rules = discount r"
      using applicable_discount_first [OF desc, of quantity] assms
      unfolding set_sorted by blast
    then show "\<exists>r\<in>set rules. js_ge quantity (minQty r)
           \<and> (\<forall>r'\<in>set rules. js_ge quantity (minQty r') \<longrightarrow> js_ge (minQty r) (minQty r'))
           \<and> fst (calculateBulkPrice basePrice quantity rules) =
               js_mul basePrice (js_sub (num 1) (js_div (discount r) (num 100)))"
      unfolding res fst_conv by metis
  qed
  have none: "(\<forall>r\<in>set rules. \<not> js_ge quantity (minQty r)) \<longrightarrow>
        fst (calculateBulkPrice basePrice quantity rules) = basePrice"
  proof
    assume "\<forall>r\<in>set rules. \<not> js_ge quantity (minQty r)"
    then have "applicable_discount quantity sorted_rules = num 0"
      by (intro applicable_discount_none) (simp add: set_sorted)
    then show "fst (calculateBulkPrice basePrice quantity rules) = basePrice"
      unfolding res fst_conv by (simp only: js_mul_one)
  qed
  have ex: "fst (calculateBulkPrice (num 100) (num 5)
             [\<lparr>minQty = num 10, discount = num 20\<rparr>, \<lparr>minQty = num 3, discount = num 10\<rparr>]) = num 90"
    by (simp add: calculateBulkPrice_def sort_by_def Let_def num_eval)
  have d: "descending (snd (calculateBulkPrice basePrice quantity rules))"
    unfolding res snd_conv by (rule desc)
  have f: "fst (calculateBulkPrice basePrice quantity rules) =
        js_mul basePrice (js_sub (num 1)
          (js_div (applicable_discount quantity (snd (calculateBulkPrice basePrice quantity rules)))
                  (num 100)))"
    unfolding res fst_conv snd_conv by (rule refl)
  from d f some none ex show ?thesis by (intro conjI)
qed

text \<open>The theorem on the rules \<open>[{3, 10%}, {10, 20%}, {10, 25%}]\<close>: twelve units
  reach all three, and the first of the two rules with the largest threshold applies.\<close>

theorem bulk_price_largest_tier_witness:
  "num 3 \<noteq> NaN \<and> num 10 \<noteq> NaN
   \<and> calculateBulkPrice (num 200) (num 12)
        [\<lparr>minQty = num 3, discount = num 10\<rparr>, \<lparr>minQty = num 10, discount = num 20\<rparr>,
         \<lparr>minQty = num 10, discount = num 25\<rparr>]
      = (num 160, [\<lparr>minQty = num 10, discount = num 20\<rparr>, \<lparr>minQty = num 10, discount = num 25\<rparr>,
                   \<lparr>minQty = num 3, discount = num 10\<rparr>])
   \<and> fst (calculateBulkPrice (num 200) (num 2)
        [\<lparr>minQty = num 3, discount = num 10\<rparr>, \<lparr>minQty = num 10, discount = num 20\<rparr>,
         \<lparr>minQty = num 10, discount = num 25\<rparr>]) = num 200"
proof -
  let ?rules = "[\<lparr>minQty = num 3, discount = num 10\<rparr>, \<lparr>minQty = num 10, discount = num 20\<rparr>,
                 \<lparr>minQty = num 10, discount = num 25\<rparr>]"
  have h: "\<forall>r\<in>set ?rules. minQty r \<noteq> NaN"
    by (simp add: num_not_NaN)
  have sorted_rules: "snd (calculateBulkPrice (num 200) (num 12) ?rules) =
      [\<lparr>minQty = num 10, discount = num 20\<rparr>, \<lparr>minQty = num 10, discount = num 25\<rparr>,
       \<lparr>minQty = num 3, discount = num 10\<rparr>]"
    by (simp add: calculateBulkPrice_def sort_by_def Let_def num_eval)
  have none: "\<forall>r\<in>set ?rules. \<not> js_ge (num 2) (minQty r)"
    by (simp add: num_eval)
  have "fst (calculateBulkPrice (num 200) (num 12) ?rules) = num 160"
    using bulk_price_largest_tier [OF h, of "num 200" "num 12"]
    unfolding sorted_rules by (simp add: num_eval)
  moreover have "fst (calculateBulkPrice (num 200) (num 2) ?rules) = num 200"
    using bulk_price_largest_tier [OF h, of "num 200" "num 2"] none by blast
  ultimately show ?thesis
    using sorted_rules by (simp add: prod_eq_iff num_not_NaN)
qed

text \<open>
  Claim C6 as stated fails on a rule list with a NaN threshold. In
  \<open>[{minQty:3,discount:10}, {minQty:NaN,discount:50}, {minQty:10,discount:20}]\<close> the
  comparator returns NaN for every pair with the middle rule, the sort leaves the list
  as it is, and the scan stops at the first rule: twelve units reach the threshold 10,
  whose price would be 80, and the price returned is 90.
\<close>

theorem bulk_price_nan_threshold_counterexample:
  "fst (calculateBulkPrice (num 100) (num 12)
         [\<lparr>minQty = num 3, discount = num 10\<rparr>, \<lparr>minQty = NaN, discount = num 50\<rparr>,
          \<lparr>minQty = num 10, discount = num 20\<rparr>]) = num 90
   \<and> snd (calculateBulkPrice (num 100) (num 12)
         [\<lparr>minQty = num 3, discount = num 10\<rparr>, \<lparr>minQty = NaN, discount = num 50\<rparr>,
          \<lparr>minQty = num 10, discount = num 20\<rparr>])
       = [\<lparr>minQty = num 3, discount = num 10\<rparr>, \<lparr>minQty = NaN, discount = num 50\<rparr>,
          \<lparr>minQty = num 10, discount = num 20\<rparr>]
   \<and> js_ge (num 12) (num 10) \<and> js_gt (num 10) (num 3) \<and> \<not> js_ge (num 12) NaN
   \<and> js_mul (num 100) (js_sub (num 1) (js_div (num 20) (num 100))) = num 80
   \<and> num 90 \<noteq> num 80"
  by (simp add: calculateBulkPrice_def sort_by_def Let_def num_eval)

text \<open>
  Claim C4 fails on the code. \<open>bulkRules.sort(...)\<close> sorts the array it is called on,
  the caller's: after \<open>calculateBulkPrice(100, 5, [{minQty:3,discount:10},
  {minQty:10,discount:20}])\<close> the argument holds the two rules in the other order.
\<close>

theorem bulk_price_reorders_caller_rules:
  "snd (calculateBulkPrice (num 100) (num 5)
         [\<lparr>minQty = num 3, discount = num 10\<rparr>, \<lparr>minQty = num 10, discount = num 20\<rparr>])
     = [\<lparr>minQty = num 10, discount = num 20\<rparr>, \<lparr>minQty = num 3, discount = num 10\<rparr>]
   \<and> snd (calculateBulkPrice (num 100) (num 5)
         [\<lparr>minQty = num 3, discount = num 10\<rparr>, \<lparr>minQty = num 10, discount = num 20\<rparr>])
     \<noteq> [\<lparr>minQty = num 3, discount = num 10\<rparr>, \<lparr>minQty = num 10, discount = num 20\<rparr>]"
  by (simp add: calculateBulkPrice_def sort_by_def Let_def num_eval)

section \<open>Properties of deleting\<close>

text \<open>
  On the orders page the list changes only when the user confirmed and the response is
  \<open>ok\<close>; any other outcome leaves the list as it was and raises the alert.
\<close>

lemma handleDelete_orders_changes_only_on_ok:
  "fst (handleDelete_orders confirmed response orders ident) \<noteq> orders
   \<Longrightarrow> confirmed \<and> response = Response True"
  by (auto simp: handleDelete_orders_def split: fetch_result.splits if_splits)

lemma handleDelete_orders_ok:
  "handleDelete_orders True (Response True) orders ident
     = (filter (\<lambda>order. order_id order \<noteq> ident) orders, False)"
  by (simp add: handleDelete_orders_def)

lemma handleDelete_orders_failure:
  "response \<noteq> Response True \<Longrightarrow>
   handleDelete_orders True response orders ident = (orders, True)"
  by (cases response) (auto simp: handleDelete_orders_def)

text \<open>
  Claim C5 fails on the code of the products page. Its \<open>handleDelete\<close> awaits the
  request and removes the product without looking at \<open>response.ok\<close>: a response that
  is not \<open>ok\<close> (a 404 or a 500, on which \<open>fetch\<close> resolves) still empties the list
  \<open>[p1]\<close>.
\<close>

theorem handleDelete_products_ignores_status:
  "handleDelete_products True (Response False) [\<lparr>product_id = ascii ''p1''\<rparr>] (ascii ''p1'') = []
   \<and> handleDelete_products True (Response False) [\<lparr>product_id = ascii ''p1''\<rparr>] (ascii ''p1'')
       \<noteq> [\<lparr>product_id = ascii ''p1''\<rparr>]"
  by (simp add: handleDelete_products_def)


section \<open>Properties of filtering and aggregation\<close>

text \<open>
  Claim C7: the filtered list holds, in their order, the orders that pass every active
  filter (a filter is inactive when the search term or a date is empty, or a selection is
  \<open>all\<close>); with the status filter alone it holds exactly the orders of the selected
  status; of three orders that are pending, completed and completed, the filter
  \<open>completed\<close> keeps the last two, and \<open>completedOrders\<close> is 2 on the result.
\<close>

theorem filterOrders_intersection:
  "filterOrders toLowerCase dateValue orders searchTerm statusFilter paymentFilter dateRange =
     filter (\<lambda>order.
         (searchTerm = [] \<or> search_matches toLowerCase searchTerm order)
       \<and> (statusFilter = ascii ''all'' \<or> status order = statusFilter)
       \<and> (paymentFilter = ascii ''all'' \<or> paymentStatus order = paymentFilter)
       \<and> (startDate dateRange = [] \<or>
            js_ge (dateValue (createdAt order)) (dateValue (startDate dateRange)))
       \<and> (endDate dateRange = [] \<or>
            js_le (dateValue (createdAt order)) (dateValue (endDate dateRange)))) orders
   \<and> filterOrders toLowerCase dateValue orders [] statusFilter (ascii ''all'') no_dates =
       (if statusFilter = ascii ''all'' then orders
        else filter (\<lambda>order. status order = statusFilter) orders)
   \<and> filterOrders toLowerCase dateValue
        [example_order (ascii ''1'') (ascii ''pending'') (JNum (num 10)),
         example_order (ascii ''2'') (ascii ''completed'') (JNum (num 20)),
         example_order (ascii ''3'') (ascii ''completed'') (JNum (num 30))]
        [] (ascii ''completed'') (ascii ''all'') no_dates =
        [example_order (ascii ''2'') (ascii ''completed'') (JNum (num 20)),
         example_order (ascii ''3'') (ascii ''completed'') (JNum (num 30))]
   \<and> completedOrders (getOrderStats numberToString
        (filterOrders toLowerCase dateValue
          [example_order (ascii ''1'') (ascii ''pending'') (JNum (num 10)),
           example_order (ascii ''2'') (ascii ''completed'') (JNum (num 20)),
           example_order (ascii ''3'') (ascii ''completed'') (JNum (num 30))]
          [] (ascii ''completed'') (ascii ''all'') no_dates)) = 2"
proof -
  have general: "filterOrders toLowerCase dateValue orders searchTerm statusFilter paymentFilter dateRange =
     filter (\<lambda>order.
         (searchTerm = [] \<or> search_matches toLowerCase searchTerm order)
       \<and> (statusFilter = ascii ''all'' \<or> status order = statusFilter)
       \<and> (paymentFilter = ascii ''all'' \<or> paymentStatus order = paymentFilter)
       \<and> (startDate dateRange = [] \<or>
            js_ge (dateValue (createdAt order)) (dateValue (startDate dateRange)))
       \<and> (endDate dateRange = [] \<or>
            js_le (dateValue (createdAt order)) (dateValue (endDate dateRange)))) orders"
    unfolding filterOrders_def Let_def
    by (simp add: conj_commute conj_left_commute cong: conj_cong)
  have status_only: "filterOrders toLowerCase dateValue orders [] statusFilter (ascii ''all'') no_dates =
       (if statusFilter = ascii ''all'' then orders
        else filter (\<lambda>order. status order = statusFilter) orders)"
    by (simp add: filterOrders_def no_dates_def)
  have ex: "filterOrders toLowerCase dateValue
        [example_order (ascii ''1'') (ascii ''pending'') (JNum (num 10)),
         example_order (ascii ''2'') (ascii ''completed'') (JNum (num 20)),
         example_order (ascii ''3'') (ascii ''completed'') (JNum (num 30))]
        [] (ascii ''completed'') (ascii ''all'') no_dates =
        [example_order (ascii ''2'') (ascii ''completed'') (JNum (num 20)),
         example_order (ascii ''3'') (ascii ''completed'') (JNum (num 30))]"
    by (simp add: filterOrders_def no_dates_def example_order_def ascii_def)
  have stats: "completedOrders (getOrderStats numberToString
        [example_order (ascii ''2'') (ascii ''completed'') (JNum (num 20)),
         example_order (ascii ''3'') (ascii ''completed'') (JNum (num 30))]) = 2"
    by (simp add: getOrderStats_def example_order_def)
  from general status_only ex stats show ?thesis
    by (simp only: simp_thms)
qed

text \<open>The theorem with a search for \<open>ord-2\<close> and the payment filter \<open>paid\<close>.\<close>

theorem filterOrders_intersection_witness:
  "filterOrders ascii_lower (\<lambda>s. NaN)
     [example_order (ascii ''1'') (ascii ''pending'') (JNum (num 10)),
      example_order (ascii ''2'') (ascii ''completed'') (JNum (num 20)),
      example_order (ascii ''3'') (ascii ''completed'') (JNum (num 30))]
     (ascii ''Ord-2'') (ascii ''all'') (ascii ''paid'') no_dates
   = [example_order (ascii ''2'') (ascii ''completed'') (JNum (num 20))]"
proof -
  have "filterOrders ascii_lower (\<lambda>s. NaN)
     [example_order (ascii ''1'') (ascii ''pending'') (JNum (num 10)),
      example_order (ascii ''2'') (ascii ''completed'') (JNum (num 20)),
      example_order (ascii ''3'') (ascii ''completed'') (JNum (num 30))]
     (ascii ''Ord-2'') (ascii ''all'') (ascii ''paid'') no_dates
   = filter (\<lambda>order. search_matches ascii_lower (ascii ''Ord-2'') order
                      \<and> paymentStatus order = ascii ''paid'')
     [example_order (ascii ''1'') (ascii ''pending'') (JNum (num 10)),
      example_order (ascii ''2'') (ascii ''completed'') (JNum (num 20)),
      example_order (ascii ''3'') (ascii ''completed'') (JNum (num 30))]"
    using filterOrders_intersection [of ascii_lower "\<lambda>s. NaN"
      "[example_order (ascii ''1'') (ascii ''pending'') (JNum (num 10)),
        example_order (ascii ''2'') (ascii ''completed'') (JNum (num 20)),
        example_order (ascii ''3'') (ascii ''completed'') (JNum (num 30))]"
      "ascii ''Ord-2''" "ascii ''all''" "ascii ''paid''" no_dates]
    by (simp add: no_dates_def ascii_def)
  also have "\<dots> = [example_order (ascii ''2'') (ascii ''completed'') (JNum (num 20))]"
    by (simp add: search_matches_def opt_includes_def example_order_def ascii_lower_def
        starts_with_def ascii_def)
  finally show ?thesis .
qed

lemma order_amount_string:
  "totalAmount order = JStr s \<Longrightarrow>
   order_amount numberToString order = coerced_total (totalAmount order)"
  by (auto simp: order_amount_def coerced_total_def truthy_def String_def parseFloat_0
      parseFloat_empty falsy_num_def fin_val_num_0 fin_val_simps Let_def)

lemma order_amount_number:
  "totalAmount order = JNum n \<Longrightarrow> (\<not> falsy_num n \<Longrightarrow> parseFloat (numberToString n) = n) \<Longrightarrow>
   order_amount numberToString order = coerced_total (totalAmount order)"
  by (auto simp: order_amount_def coerced_total_def truthy_def String_def parseFloat_0
      Let_def)

lemma parseFloat_true: "parseFloat (ascii ''true'') = NaN"
  by (simp add: parseFloat_defs)

lemma order_amount_other:
  "totalAmount order = JUndefined \<or> totalAmount order = JNull \<or> totalAmount order = JBool b \<Longrightarrow>
   order_amount numberToString order = coerced_total (totalAmount order)"
  by (auto simp: order_amount_def coerced_total_def truthy_def String_def parseFloat_0
      parseFloat_true falsy_num_def fin_val_num_0 fin_val_simps Let_def)

text \<open>
  Claim C8: the revenue is the sum, taken in list order, of the coerced totals of the
  filtered orders, where a total given as a string contributes the number that
  \<open>parseFloat\<close> reads from it, a total given as a number contributes that number, and a
  missing total or one that gives no number contributes 0. The decimal rendering of a
  number is the host's; the one thing taken of it is that \<open>parseFloat\<close> reads a
  rendered number back, on the numeric totals of the list.
\<close>

theorem revenue_is_sum_of_coerced_totals:
  assumes "\<forall>order\<in>set filteredOrders. \<forall>n. totalAmount order = JNum n \<and> \<not> falsy_num n \<longrightarrow>
             parseFloat (numberToString n) = n"
  shows "totalRevenue (getOrderStats numberToString filteredOrders) =
     sum_in_order (map (\<lambda>order. coerced_total (totalAmount order)) filteredOrders)"
proof -
  have "order_amount numberToString order = coerced_total (totalAmount order)"
    if "order \<in> set filteredOrders" for order
  proof (cases "totalAmount order")
    case (JNum n)
    with assms that show ?thesis by (intro order_amount_number) auto
  next
    case (JStr s)
    then show ?thesis by (rule order_amount_string)
  qed (simp_all add: order_amount_other)
  then have "map (order_amount numberToString) filteredOrders =
      map (\<lambda>order. coerced_total (totalAmount order)) filteredOrders"
    by simp
  moreover have "totalRevenue (getOrderStats numberToString filteredOrders) =
      foldl js_add (num 0) (map (order_amount numberToString) filteredOrders)"
    by (simp add: getOrderStats_def foldl_map)
  ultimately show ?thesis
    by (simp only: sum_in_order_def)
qed

text \<open>
  The totals 10, 20, \<open>"12.5"\<close>, missing, \<open>"abc"\<close> and \<open>"0.1"\<close>, with the numbers
  rendered as \<open>10\<close> and \<open>20\<close>, add up to 42.6.
\<close>

theorem revenue_is_sum_of_coerced_totals_witness:
  "totalRevenue (getOrderStats
       (\<lambda>n. if n = num 10 then ascii ''10'' else if n = num 20 then ascii ''20'' else [])
     [example_order (ascii ''1'') (ascii ''pending'') (JNum (num 10)),
      example_order (ascii ''2'') (ascii ''completed'') (JNum (num 20)),
      example_order (ascii ''3'') (ascii ''completed'') (JStr (ascii ''12.5'')),
      example_order (ascii ''4'') (ascii ''completed'') JUndefined,
      example_order (ascii ''5'') (ascii ''completed'') (JStr (ascii ''abc'')),
      example_order (ascii ''6'') (ascii ''completed'') (JStr (ascii ''0.1''))]) = num 42.6"
proof -
  let ?nts = "\<lambda>n. if n = num 10 then ascii ''10'' else if n = num 20 then ascii ''20'' else []"
  let ?os = "[example_order (ascii ''1'') (ascii ''pending'') (JNum (num 10)),
      example_order (ascii ''2'') (ascii ''completed'') (JNum (num 20)),
      example_order (ascii ''3'') (ascii ''completed'') (JStr (ascii ''12.5'')),
      example_order (ascii ''4'') (ascii ''completed'') JUndefined,
      example_order (ascii ''5'') (ascii ''completed'') (JStr (ascii ''abc'')),
      example_order (ascii ''6'') (ascii ''completed'') (JStr (ascii ''0.1''))]"
  have p10: "parseFloat (ascii ''10'') = num 10" by (simp add: parseFloat_defs)
  have p20: "parseFloat (ascii ''20'') = num 20" by (simp add: parseFloat_defs)
  have p01: "parseFloat (ascii ''0.1'') = num 0.1" by (simp add: parseFloat_defs)
  have ne: "num 20 \<noteq> num 10" by (simp add: num_eval)
  have reads: "\<forall>order\<in>set ?os. \<forall>n. totalAmount order = JNum n \<and> \<not> falsy_num n \<longrightarrow>
             parseFloat (?nts n) = n"
    by (simp add: example_order_def p10 p20 ne)
  have totals: "map (\<lambda>order. coerced_total (totalAmount order)) ?os =
      [num 10, num 20, num 12.5, num 0, num 0, num 0.1]"
    by (simp add: example_order_def coerced_total_def parseFloat_12_5 parseFloat_abc p01)
       (simp add: num_eval)
  have "sum_in_order [num 10, num 20, num 12.5, num 0, num 0, num 0.1] = num 42.6"
    by (simp add: sum_in_order_def num_eval)
  with revenue_is_sum_of_coerced_totals [OF reads] totals show ?thesis by simp
qed

section \<open>Properties of the addon title\<close>

lemma truthy_field_eq: "truthy_field f = (if unset f then None else f)"
  by (auto simp: truthy_field_def unset_def split: option.splits)

lemma not_unset: "f = Some t \<Longrightarrow> t \<noteq> [] \<Longrightarrow> \<not> unset f"
  by (simp add: unset_def)

lemma find_nonempty: "find P xs = Some a \<Longrightarrow> 0 < length xs"
  by (cases xs) auto

text \<open>
  Claim C9, where a field is present when it is defined and not empty, which is what
  \<open>if (addon.addonTitle)\<close> tests: the title is the embedded \<open>addonTitle\<close> when
  present, else the embedded \<open>title\<close>, else the embedded \<open>name\<close>, else the title of
  the first catalog entry whose \<open>id\<close> is the selection's \<open>addonId\<close>, else
  \<open>Addon N\<close> for the position \<open>N = index + 1\<close>.
\<close>

theorem addon_title_priority:
  "(\<forall>t. addonTitle addon = Some t \<and> t \<noteq> [] \<longrightarrow> getAddonTitle addons addon index = t)
   \<and> (\<forall>t. unset (addonTitle addon) \<and> title addon = Some t \<and> t \<noteq> []
         \<longrightarrow> getAddonTitle addons addon index = t)
   \<and> (\<forall>t. unset (addonTitle addon) \<and> unset (title addon) \<and> name addon = Some t \<and> t \<noteq> []
         \<longrightarrow> getAddonTitle addons addon index = t)
   \<and> (\<forall>a. unset (addonTitle addon) \<and> unset (title addon) \<and> unset (name addon)
         \<and> addonId addon \<noteq> [] \<and> find (\<lambda>a. catalog_id a = addonId addon) addons = Some a
         \<longrightarrow> getAddonTitle addons addon index = catalog_title a)
   \<and> (unset (addonTitle addon) \<and> unset (title addon) \<and> unset (name addon)
         \<and> (addonId addon = [] \<or> (\<forall>a\<in>set addons. catalog_id a \<noteq> addonId addon))
         \<longrightarrow> getAddonTitle addons addon index = ascii ''Addon '' @ decimal (index + 1))"
proof (intro conjI allI impI; elim conjE)
  fix t
  assume "addonTitle addon = Some t" "t \<noteq> []"
  then show "getAddonTitle addons addon index = t"
    by (simp add: getAddonTitle_def truthy_field_eq not_unset)
next
  fix t
  assume "unset (addonTitle addon)" "title addon = Some t" "t \<noteq> []"
  then show "getAddonTitle addons addon index = t"
    by (simp add: getAddonTitle_def truthy_field_eq not_unset)
next
  fix t
  assume "unset (addonTitle addon)" "unset (title addon)" "name addon = Some t" "t \<noteq> []"
  then show "getAddonTitle addons addon index = t"
    by (simp add: getAddonTitle_def truthy_field_eq not_unset)
next
  fix a
  assume "unset (addonTitle addon)" "unset (title addon)" "unset (name addon)"
    "addonId addon \<noteq> []" "find (\<lambda>a. catalog_id a = addonId addon) addons = Some a"
  then show "getAddonTitle addons addon index = catalog_title a"
    using find_nonempty [of "\<lambda>a. catalog_id a = addonId addon" addons a]
    by (simp add: getAddonTitle_def truthy_field_eq)
next
  assume u: "unset (addonTitle addon)" "unset (title addon)" "unset (name addon)"
    and "addonId addon = [] \<or> (\<forall>a\<in>set addons. catalog_id a \<noteq> addonId addon)"
  then have "(if addonId addon \<noteq> [] \<and> 0 < length addons
               then find (\<lambda>a. catalog_id a = addonId addon) addons else None) = None"
    by (auto simp: find_None_iff)
  with u show "getAddonTitle addons addon index = ascii ''Addon '' @ decimal (index + 1)"
    by (simp add: getAddonTitle_def truthy_field_eq)
qed

text \<open>The theorem on a selection resolved by the catalog, on one that falls back to its
  position, and on one that carries a title and a name.\<close>

theorem addon_title_priority_witness:
  "getAddonTitle [\<lparr>catalog_id = ascii ''a1'', catalog_title = ascii ''Gift wrap''\<rparr>]
     \<lparr>addonId = ascii ''a1'', addonTitle = None, title = Some [], name = None\<rparr> 0
     = ascii ''Gift wrap''
   \<and> getAddonTitle [\<lparr>catalog_id = ascii ''a1'', catalog_title = ascii ''Gift wrap''\<rparr>]
     \<lparr>addonId = ascii ''a2'', addonTitle = None, title = None, name = None\<rparr> 2
     = ascii ''Addon 3''
   \<and> getAddonTitle [\<lparr>catalog_id = ascii ''a1'', catalog_title = ascii ''Gift wrap''\<rparr>]
     \<lparr>addonId = ascii ''a1'', addonTitle = None, title = Some (ascii ''Bow''),
      name = Some (ascii ''Ribbon'')\<rparr> 0
     = ascii ''Bow''"
  using
    addon_title_priority [of
      "\<lparr>addonId = ascii ''a1'', addonTitle = None, title = Some [], name = None\<rparr>"
      "[\<lparr>catalog_id = ascii ''a1'', catalog_title = ascii ''Gift wrap''\<rparr>]" 0]
    addon_title_priority [of
      "\<lparr>addonId = ascii ''a2'', addonTitle = None, title = None, name = None\<rparr>"
      "[\<lparr>catalog_id = ascii ''a1'', catalog_title = ascii ''Gift wrap''\<rparr>]" 2]
    addon_title_priority [of
      "\<lparr>addonId = ascii ''a1'', addonTitle = None, title = Some (ascii ''Bow''),
        name = Some (ascii ''Ribbon'')\<rparr>"
      "[\<lparr>catalog_id = ascii ''a1'', catalog_title = ascii ''Gift wrap''\<rparr>]" 0]
  by (simp add: unset_def ascii_def decimal.simps)

section \<open>Properties of slugs\<close>

lemma ascii_hyphen: "ascii ''-'' = [0x2D]"
  by (simp add: ascii_def)

lemma alnum_not_hyphen: "is_lower_alnum c \<Longrightarrow> \<not> is_hyphen c"
  by (auto simp: is_lower_alnum_def is_hyphen_def)

lemma set_replace_runs: "set (replace_runs P r s) \<subseteq> set r \<union> {c \<in> set s. \<not> P c}"
proof (induction P r s rule: replace_runs.induct)
  case (1 P r)
  then show ?case by simp
next
  case (2 P r c cs)
  have "set (dropWhile P cs) \<subseteq> set cs"
    by (auto dest: set_dropWhileD)
  with 2 show ?case by auto
qed

lemma replace_runs_head:
  "s = [] \<or> \<not> P (hd s) \<Longrightarrow>
   replace_runs P r s = [] \<or> \<not> P (hd (replace_runs P r s))"
  by (cases s) auto

lemma dropWhile_head: "dropWhile P s = [] \<or> \<not> P (hd (dropWhile P s))"
  using hd_dropWhile [of P s] by blast

lemma no_double_hyphen_replace_runs:
  "no_double_hyphen (replace_runs is_hyphen [0x2D] s)"
proof (induction is_hyphen "[0x2D :: jschar]" s rule: replace_runs.induct)
  case 1
  then show ?case by (simp add: no_double_hyphen_def)
next
  case (2 c cs)
  show ?case
  proof (cases "is_hyphen c")
    case True
    have "replace_runs is_hyphen [0x2D] (dropWhile is_hyphen cs) = []
          \<or> \<not> is_hyphen (hd (replace_runs is_hyphen [0x2D] (dropWhile is_hyphen cs)))"
      by (intro replace_runs_head dropWhile_head)
    with 2 True show ?thesis
      by (auto simp: no_double_hyphen_def successively_Cons)
  next
    case False
    with 2 show ?thesis
      by (auto simp: no_double_hyphen_def successively_Cons)
  qed
qed

lemma no_double_hyphen_dropWhile:
  "no_double_hyphen s \<Longrightarrow> no_double_hyphen (dropWhile P s)"
  unfolding no_double_hyphen_def
  by (induction s) (auto simp: successively_Cons)

lemma no_double_hyphen_rev: "no_double_hyphen (rev s) = no_double_hyphen s"
proof -
  have "(\<lambda>x y. \<not> (is_hyphen y \<and> is_hyphen x)) = (\<lambda>a b. \<not> (is_hyphen a \<and> is_hyphen b))"
    by (auto simp: fun_eq_iff)
  then show ?thesis
    unfolding no_double_hyphen_def successively_rev by (rule arg_cong2 [OF _ refl])
qed

lemma no_double_hyphen_strip_ends:
  "no_double_hyphen s \<Longrightarrow> no_double_hyphen (strip_ends P s)"
  by (simp add: strip_ends_def no_double_hyphen_rev no_double_hyphen_dropWhile)

lemma set_strip_ends: "set (strip_ends P s) \<subseteq> set s"
  by (auto simp: strip_ends_def dest!: set_dropWhileD)

lemma last_dropWhile: "dropWhile P s \<noteq> [] \<Longrightarrow> last (dropWhile P s) = last s"
  by (induction s) (auto split: if_splits)

lemma strip_ends_ends:
  "strip_ends P s = [] \<or> (\<not> P (hd (strip_ends P s)) \<and> \<not> P (last (strip_ends P s)))"
proof (cases "strip_ends P s = []")
  case True
  then show ?thesis by simp
next
  case False
  define t where "t = dropWhile P s"
  define u where "u = dropWhile P (rev t)"
  have res: "strip_ends P s = rev u"
    by (simp add: strip_ends_def t_def u_def)
  with False have u: "u \<noteq> []" by simp
  then have t: "t \<noteq> []" by (auto simp: u_def)
  have "\<not> P (hd u)"
    using u dropWhile_head [of P "rev t"] unfolding u_def by blast
  then have l: "\<not> P (last (strip_ends P s))"
    using u by (simp add: res last_rev)
  have "last u = last (rev t)"
    using u unfolding u_def by (rule last_dropWhile)
  then have "last u = hd t"
    using t by (simp add: last_rev)
  moreover have "\<not> P (hd t)"
    using t dropWhile_head [of P s] unfolding t_def by blast
  ultimately have "\<not> P (hd (strip_ends P s))"
    using u by (simp add: res hd_rev)
  with l show ?thesis by simp
qed

lemma slugRegex_well_formed:
  assumes "\<forall>c\<in>set s. is_lower_alnum c \<or> is_hyphen c"
    and "no_double_hyphen s" and "s \<noteq> []"
    and "\<not> is_hyphen (hd s)" and "\<not> is_hyphen (last s)"
  shows "slugRegex s"
  using assms
proof (induction s rule: length_induct)
  case (1 s)
  define seg where "seg = takeWhile is_lower_alnum s"
  define rest where "rest = dropWhile is_lower_alnum s"
  have s: "s = seg @ rest"
    by (simp add: seg_def rest_def)
  from 1(4,5) 1(2) have "is_lower_alnum (hd s)"
    by (cases s) auto
  with 1(4) have seg: "seg \<noteq> []"
    by (cases s) (auto simp: seg_def)
  have unfold: "slugRegex s =
      (seg \<noteq> [] \<and> (case rest of [] \<Rightarrow> True | c # r \<Rightarrow> c = 0x2D \<and> slugRegex r))"
    unfolding seg_def rest_def by (rule slugRegex.simps)
  show ?case
  proof (cases rest)
    case Nil
    with seg show ?thesis
      by (simp add: unfold)
  next
    case (Cons c r)
    have "\<not> is_lower_alnum c"
      using Cons hd_dropWhile [of is_lower_alnum s] by (simp add: rest_def)
    moreover have "c \<in> set s"
      using Cons s by (metis in_set_conv_decomp)
    ultimately have c: "is_hyphen c"
      using 1(2) by blast
    have s': "s = seg @ c # r"
      using s Cons by simp
    have r_ne: "r \<noteq> []"
      using 1(6) c s' by auto
    have nd: "no_double_hyphen (c # r)"
      using 1(3) unfolding s' no_double_hyphen_def
      by (simp add: successively_append_iff)
    then have r_hd: "\<not> is_hyphen (hd r)" and r_nd: "no_double_hyphen r"
      using c r_ne unfolding no_double_hyphen_def
      by (auto simp: successively_Cons)
    have r_last: "\<not> is_hyphen (last r)"
      using 1(6) r_ne by (simp add: s')
    have r_chars: "\<forall>c\<in>set r. is_lower_alnum c \<or> is_hyphen c"
      using 1(2) by (auto simp: s')
    have "length r < length s"
      by (simp add: s')
    with 1(1) r_chars r_nd r_ne r_hd r_last have "slugRegex r"
      by blast
    with seg c Cons show ?thesis
      by (simp add: unfold is_hyphen_def)
  qed
qed

text \<open>
  Claim C10: whatever \<open>toLowerCase\<close> and \<open>normalize\<close> do, \<open>generateSlug(t)\<close> is
  the empty string or a string that \<open>isValidSlug\<close> accepts.
\<close>

theorem generateSlug_valid_or_empty:
  "generateSlug toLowerCase normalizeNFD t = []
   \<or> isValidSlug (generateSlug toLowerCase normalizeNFD t)"
proof (cases "t = []")
  case True
  then show ?thesis by (simp add: generateSlug_def)
next
  case False
  define s5 where "s5 = filter (\<lambda>c. is_lower_alnum c \<or> is_space c \<or> is_hyphen c)
      (filter (\<lambda>c. \<not> is_combining c) (normalizeNFD (trim (toLowerCase t))))"
  define s6 where "s6 = replace_runs is_space [0x2D] s5"
  define s7 where "s7 = replace_runs is_hyphen [0x2D] s6"
  have res: "generateSlug toLowerCase normalizeNFD t = strip_ends is_hyphen s7"
    using False by (simp add: generateSlug_def s5_def s6_def s7_def ascii_hyphen Let_def)
  have c6: "\<forall>c\<in>set s6. is_lower_alnum c \<or> is_hyphen c"
    using set_replace_runs [of is_space "[0x2D]" s5]
    by (auto simp: s6_def s5_def is_hyphen_def)
  have c7: "\<forall>c\<in>set s7. is_lower_alnum c \<or> is_hyphen c"
    using set_replace_runs [of is_hyphen "[0x2D]" s6] c6
    by (auto simp: s7_def is_hyphen_def)
  have chars: "\<forall>c\<in>set (strip_ends is_hyphen s7). is_lower_alnum c \<or> is_hyphen c"
    using c7 set_strip_ends [of is_hyphen s7] by blast
  have nd: "no_double_hyphen (strip_ends is_hyphen s7)"
    unfolding s7_def by (intro no_double_hyphen_strip_ends no_double_hyphen_replace_runs)
  show ?thesis
  proof (cases "strip_ends is_hyphen s7 = []")
    case True
    then show ?thesis by (simp add: res)
  next
    case ne: False
    with strip_ends_ends [of is_hyphen s7]
    have "\<not> is_hyphen (hd (strip_ends is_hyphen s7))" "\<not> is_hyphen (last (strip_ends is_hyphen s7))"
      by auto
    with chars nd ne have "slugRegex (strip_ends is_hyphen s7)"
      by (intro slugRegex_well_formed)
    with ne show ?thesis
      by (simp add: res isValidSlug_def)
  qed
qed

text \<open>The theorem on \<open>"  Cafe  Deja -- Vu! "\<close> and on \<open>"!!!"\<close>.\<close>

theorem generateSlug_valid_or_empty_witness:
  "generateSlug ascii_lower (\<lambda>s. s) (ascii ''  Cafe  Deja -- Vu! '') = ascii ''cafe-deja-vu''
   \<and> isValidSlug (ascii ''cafe-deja-vu'')
   \<and> generateSlug ascii_lower (\<lambda>s. s) (ascii ''!!!'') = []"
proof -
  have a: "generateSlug ascii_lower (\<lambda>s. s) (ascii ''  Cafe  Deja -- Vu! '') = ascii ''cafe-deja-vu''"
    by (simp add: generateSlug_def ascii_lower_def trim_def strip_ends_def is_space_def
        is_combining_def is_lower_alnum_def is_hyphen_def ascii_def)
  have b: "generateSlug ascii_lower (\<lambda>s. s) (ascii ''!!!'') = []"
    by (simp add: generateSlug_def ascii_lower_def trim_def strip_ends_def is_space_def
        is_combining_def is_lower_alnum_def is_hyphen_def ascii_def)
  have "ascii ''cafe-deja-vu'' \<noteq> []"
    by (simp add: ascii_def)
  then have "isValidSlug (ascii ''cafe-deja-vu'')"
    using generateSlug_valid_or_empty [of ascii_lower "\<lambda>s. s" "ascii ''  Cafe  Deja -- Vu! ''"]
    unfolding a by simp
  with a b show ?thesis by simp
qed

end
